theory Spec2Isabelle
  imports Main "HOL-Library.Word"
begin

section \<open>The types of defender.h\<close>

text \<open>
  The return codes and the topic enumeration, in the order of the header.  The
  enumerators of \<open>DefenderTopic_t\<close> have the integer values \<open>-1, 0, ..., 6\<close>, which the
  range checks of the library compare; \<open>topicValue\<close> gives them.
\<close>

datatype DefenderStatus_t =
    DefenderError
  | DefenderSuccess
  | DefenderNoMatch
  | DefenderBadParameter
  | DefenderBufferTooSmall

datatype DefenderTopic_t =
    DefenderInvalidTopic
  | DefenderJsonReportPublish
  | DefenderJsonReportAccepted
  | DefenderJsonReportRejected
  | DefenderCborReportPublish
  | DefenderCborReportAccepted
  | DefenderCborReportRejected
  | DefenderMaxTopic

fun topicValue :: "DefenderTopic_t \<Rightarrow> int" where
  "topicValue DefenderInvalidTopic = -1"
| "topicValue DefenderJsonReportPublish = 0"
| "topicValue DefenderJsonReportAccepted = 1"
| "topicValue DefenderJsonReportRejected = 2"
| "topicValue DefenderCborReportPublish = 3"
| "topicValue DefenderCborReportAccepted = 4"
| "topicValue DefenderCborReportRejected = 5"
| "topicValue DefenderMaxTopic = 6"

text \<open>
  A \<open>char\<close> pointer argument is the memory it points to, as a list of bytes, or \<open>None\<close>
  for \<open>NULL\<close>; \<open>&(p[k])\<close> is that memory from byte \<open>k\<close> on.  An output parameter is the
  present content of its slot, or \<open>None\<close> for \<open>NULL\<close>, and every function returns the
  new contents beside its status.  The slot \<open>*ppOutThingName\<close> holds a pointer: either
  one into the topic, given by its offset, or any other address.

  The library reads and writes memory only below the lengths it is given
  (\<open>bufferLength\<close>, \<open>thingNameLength\<close>, \<open>topicLength\<close>), and C leaves a call undefined when
  the memory is shorter than that.  The model is total; where a result depends on the bytes
  read, the theorems below assume that the memory holds them.
\<close>

datatype char_ptr = TopicPtr nat | OtherPtr nat

section \<open>The macros of defender.h\<close>

definition STRING_LITERAL_LENGTH :: "string \<Rightarrow> nat" where
  "STRING_LITERAL_LENGTH literal = length literal"

definition DEFENDER_THINGNAME_MAX_LENGTH :: "16 word" where
  "DEFENDER_THINGNAME_MAX_LENGTH = 128"

definition DEFENDER_API_PREFIX :: string where
  "DEFENDER_API_PREFIX = ''$aws/things/''"

definition DEFENDER_API_PREFIX_LENGTH :: nat where
  "DEFENDER_API_PREFIX_LENGTH = STRING_LITERAL_LENGTH DEFENDER_API_PREFIX"

definition DEFENDER_API_BRIDGE :: string where
  "DEFENDER_API_BRIDGE = ''/defender/metrics/''"

definition DEFENDER_API_BRIDGE_LENGTH :: nat where
  "DEFENDER_API_BRIDGE_LENGTH = STRING_LITERAL_LENGTH DEFENDER_API_BRIDGE"

definition DEFENDER_API_JSON_REPORT_FORMAT :: string where
  "DEFENDER_API_JSON_REPORT_FORMAT = ''json''"

definition DEFENDER_API_JSON_REPORT_FORMAT_LENGTH :: nat where
  "DEFENDER_API_JSON_REPORT_FORMAT_LENGTH = STRING_LITERAL_LENGTH DEFENDER_API_JSON_REPORT_FORMAT"

definition DEFENDER_API_CBOR_REPORT_FORMAT :: string where
  "DEFENDER_API_CBOR_REPORT_FORMAT = ''cbor''"

definition DEFENDER_API_CBOR_REPORT_FORMAT_LENGTH :: nat where
  "DEFENDER_API_CBOR_REPORT_FORMAT_LENGTH = STRING_LITERAL_LENGTH DEFENDER_API_CBOR_REPORT_FORMAT"

definition DEFENDER_API_ACCEPTED_SUFFIX :: string where
  "DEFENDER_API_ACCEPTED_SUFFIX = ''/accepted''"

definition DEFENDER_API_ACCEPTED_SUFFIX_LENGTH :: nat where
  "DEFENDER_API_ACCEPTED_SUFFIX_LENGTH = STRING_LITERAL_LENGTH DEFENDER_API_ACCEPTED_SUFFIX"

definition DEFENDER_API_REJECTED_SUFFIX :: string where
  "DEFENDER_API_REJECTED_SUFFIX = ''/rejected''"

definition DEFENDER_API_REJECTED_SUFFIX_LENGTH :: nat where
  "DEFENDER_API_REJECTED_SUFFIX_LENGTH = STRING_LITERAL_LENGTH DEFENDER_API_REJECTED_SUFFIX"

definition DEFENDER_API_NULL_SUFFIX_LENGTH :: nat where
  "DEFENDER_API_NULL_SUFFIX_LENGTH = 0"

text \<open>
  The length macros add values of type \<open>size_t\<close> to the \<open>uint16_t\<close> length of the thing
  name; the sum stays below \<open>2 ^ 17\<close>, and below 172 for the lengths that
  \<open>Defender_GetTopic\<close> lets through, so it is the sum of natural numbers.
\<close>

definition DEFENDER_API_COMMON_LENGTH :: "nat \<Rightarrow> nat \<Rightarrow> nat \<Rightarrow> nat" where
  "DEFENDER_API_COMMON_LENGTH thingNameLength reportFormatLength suffixLength =
     DEFENDER_API_PREFIX_LENGTH + thingNameLength + DEFENDER_API_BRIDGE_LENGTH
       + reportFormatLength + suffixLength"

definition DEFENDER_API_JSON_REPORT_PUBLISH_LENGTH :: "nat \<Rightarrow> nat" where
  "DEFENDER_API_JSON_REPORT_PUBLISH_LENGTH thingNameLength =
     DEFENDER_API_COMMON_LENGTH thingNameLength
       DEFENDER_API_JSON_REPORT_FORMAT_LENGTH DEFENDER_API_NULL_SUFFIX_LENGTH"

definition DEFENDER_API_JSON_REPORT_ACCEPTED_LENGTH :: "nat \<Rightarrow> nat" where
  "DEFENDER_API_JSON_REPORT_ACCEPTED_LENGTH thingNameLength =
     DEFENDER_API_COMMON_LENGTH thingNameLength
       DEFENDER_API_JSON_REPORT_FORMAT_LENGTH DEFENDER_API_ACCEPTED_SUFFIX_LENGTH"

definition DEFENDER_API_JSON_REPORT_REJECTED_LENGTH :: "nat \<Rightarrow> nat" where
  "DEFENDER_API_JSON_REPORT_REJECTED_LENGTH thingNameLength =
     DEFENDER_API_COMMON_LENGTH thingNameLength
       DEFENDER_API_JSON_REPORT_FORMAT_LENGTH DEFENDER_API_REJECTED_SUFFIX_LENGTH"

definition DEFENDER_API_CBOR_REPORT_PUBLISH_LENGTH :: "nat \<Rightarrow> nat" where
  "DEFENDER_API_CBOR_REPORT_PUBLISH_LENGTH thingNameLength =
     DEFENDER_API_COMMON_LENGTH thingNameLength
       DEFENDER_API_CBOR_REPORT_FORMAT_LENGTH DEFENDER_API_NULL_SUFFIX_LENGTH"

definition DEFENDER_API_CBOR_REPORT_ACCEPTED_LENGTH :: "nat \<Rightarrow> nat" where
  "DEFENDER_API_CBOR_REPORT_ACCEPTED_LENGTH thingNameLength =
     DEFENDER_API_COMMON_LENGTH thingNameLength
       DEFENDER_API_CBOR_REPORT_FORMAT_LENGTH DEFENDER_API_ACCEPTED_SUFFIX_LENGTH"

definition DEFENDER_API_CBOR_REPORT_REJECTED_LENGTH :: "nat \<Rightarrow> nat" where
  "DEFENDER_API_CBOR_REPORT_REJECTED_LENGTH thingNameLength =
     DEFENDER_API_COMMON_LENGTH thingNameLength
       DEFENDER_API_CBOR_REPORT_FORMAT_LENGTH DEFENDER_API_REJECTED_SUFFIX_LENGTH"

section \<open>The two functions of string.h that the library calls\<close>

text \<open>
  \<open>memcpy (&(pDest[offset]), pSrc, n)\<close> returns the destination memory with the bytes
  \<open>offset, ..., offset + n - 1\<close> replaced by the first \<open>n\<close> bytes of the source.
  \<open>memcmp_is_0 p q n\<close> is the test \<open>memcmp (p, q, n) == 0\<close>.  Both are the C functions
  where the memory holds the bytes they touch (\<open>offset + n \<le> length pDest\<close>,
  \<open>n \<le> length pSrc\<close>, \<open>n \<le> length q\<close>), which C requires of every call; a comparison
  with memory shorter than the \<open>n\<close> bytes of \<open>q\<close> is not equal.
\<close>

definition memcpy :: "string \<Rightarrow> nat \<Rightarrow> string \<Rightarrow> nat \<Rightarrow> string" where
  "memcpy pDest offset pSrc n = take offset pDest @ take n pSrc @ drop (offset + n) pDest"

definition memcmp_is_0 :: "string \<Rightarrow> string \<Rightarrow> nat \<Rightarrow> bool" where
  "memcmp_is_0 p q n = (take n p = take n q)"

section \<open>defender.c\<close>

subsection \<open>The tables\<close>

definition defenderApi :: "DefenderTopic_t list" where
  "defenderApi =
    [ DefenderJsonReportPublish,
      DefenderJsonReportAccepted,
      DefenderJsonReportRejected,
      DefenderCborReportPublish,
      DefenderCborReportAccepted,
      DefenderCborReportRejected ]"

definition defenderApiTopic :: "string list" where
  "defenderApiTopic =
    [ DEFENDER_API_JSON_REPORT_FORMAT,
      DEFENDER_API_JSON_REPORT_FORMAT @ DEFENDER_API_ACCEPTED_SUFFIX,
      DEFENDER_API_JSON_REPORT_FORMAT @ DEFENDER_API_REJECTED_SUFFIX,
      DEFENDER_API_CBOR_REPORT_FORMAT,
      DEFENDER_API_CBOR_REPORT_FORMAT @ DEFENDER_API_ACCEPTED_SUFFIX,
      DEFENDER_API_CBOR_REPORT_FORMAT @ DEFENDER_API_REJECTED_SUFFIX ]"

definition defenderApiTopicLength :: "16 word list" where
  "defenderApiTopicLength =
    [ of_nat DEFENDER_API_JSON_REPORT_FORMAT_LENGTH,
      of_nat (DEFENDER_API_JSON_REPORT_FORMAT_LENGTH + DEFENDER_API_ACCEPTED_SUFFIX_LENGTH),
      of_nat (DEFENDER_API_JSON_REPORT_FORMAT_LENGTH + DEFENDER_API_REJECTED_SUFFIX_LENGTH),
      of_nat DEFENDER_API_CBOR_REPORT_FORMAT_LENGTH,
      of_nat (DEFENDER_API_CBOR_REPORT_FORMAT_LENGTH + DEFENDER_API_ACCEPTED_SUFFIX_LENGTH),
      of_nat (DEFENDER_API_CBOR_REPORT_FORMAT_LENGTH + DEFENDER_API_REJECTED_SUFFIX_LENGTH) ]"

subsection \<open>getTopicLength\<close>

text \<open>
  The switch of the source; its \<open>default\<close> label shares the branch of
  \<open>DefenderCborReportRejected\<close>, so the two enumerators outside the valid range, which
  the assertion excludes, take that branch too.
\<close>

fun getTopicLength :: "16 word \<Rightarrow> DefenderTopic_t \<Rightarrow> 32 word" where
  "getTopicLength thingNameLength DefenderJsonReportPublish =
     of_nat (DEFENDER_API_JSON_REPORT_PUBLISH_LENGTH (unat thingNameLength))"
| "getTopicLength thingNameLength DefenderJsonReportAccepted =
     of_nat (DEFENDER_API_JSON_REPORT_ACCEPTED_LENGTH (unat thingNameLength))"
| "getTopicLength thingNameLength DefenderJsonReportRejected =
     of_nat (DEFENDER_API_JSON_REPORT_REJECTED_LENGTH (unat thingNameLength))"
| "getTopicLength thingNameLength DefenderCborReportPublish =
     of_nat (DEFENDER_API_CBOR_REPORT_PUBLISH_LENGTH (unat thingNameLength))"
| "getTopicLength thingNameLength DefenderCborReportAccepted =
     of_nat (DEFENDER_API_CBOR_REPORT_ACCEPTED_LENGTH (unat thingNameLength))"
| "getTopicLength thingNameLength _ =
     of_nat (DEFENDER_API_CBOR_REPORT_REJECTED_LENGTH (unat thingNameLength))"

subsection \<open>writeFormatAndSuffix\<close>

text \<open>
  The buffer argument \<open>&(pBuffer[offset])\<close> is the buffer and the offset; the result is
  the buffer after the one or two copies of the branch.
\<close>

fun writeFormatAndSuffix :: "string \<Rightarrow> nat \<Rightarrow> DefenderTopic_t \<Rightarrow> string" where
  "writeFormatAndSuffix pBuffer offset DefenderJsonReportPublish =
     memcpy pBuffer offset DEFENDER_API_JSON_REPORT_FORMAT DEFENDER_API_JSON_REPORT_FORMAT_LENGTH"
| "writeFormatAndSuffix pBuffer offset DefenderJsonReportAccepted =
     memcpy
       (memcpy pBuffer offset DEFENDER_API_JSON_REPORT_FORMAT DEFENDER_API_JSON_REPORT_FORMAT_LENGTH)
       (offset + DEFENDER_API_JSON_REPORT_FORMAT_LENGTH)
       DEFENDER_API_ACCEPTED_SUFFIX DEFENDER_API_ACCEPTED_SUFFIX_LENGTH"
| "writeFormatAndSuffix pBuffer offset DefenderJsonReportRejected =
     memcpy
       (memcpy pBuffer offset DEFENDER_API_JSON_REPORT_FORMAT DEFENDER_API_JSON_REPORT_FORMAT_LENGTH)
       (offset + DEFENDER_API_JSON_REPORT_FORMAT_LENGTH)
       DEFENDER_API_REJECTED_SUFFIX DEFENDER_API_REJECTED_SUFFIX_LENGTH"
| "writeFormatAndSuffix pBuffer offset DefenderCborReportPublish =
     memcpy pBuffer offset DEFENDER_API_CBOR_REPORT_FORMAT DEFENDER_API_CBOR_REPORT_FORMAT_LENGTH"
| "writeFormatAndSuffix pBuffer offset DefenderCborReportAccepted =
     memcpy
       (memcpy pBuffer offset DEFENDER_API_CBOR_REPORT_FORMAT DEFENDER_API_CBOR_REPORT_FORMAT_LENGTH)
       (offset + DEFENDER_API_CBOR_REPORT_FORMAT_LENGTH)
       DEFENDER_API_ACCEPTED_SUFFIX DEFENDER_API_ACCEPTED_SUFFIX_LENGTH"
| "writeFormatAndSuffix pBuffer offset _ =
     memcpy
       (memcpy pBuffer offset DEFENDER_API_CBOR_REPORT_FORMAT DEFENDER_API_CBOR_REPORT_FORMAT_LENGTH)
       (offset + DEFENDER_API_CBOR_REPORT_FORMAT_LENGTH)
       DEFENDER_API_REJECTED_SUFFIX DEFENDER_API_REJECTED_SUFFIX_LENGTH"

subsection \<open>matchPrefix and matchBridge\<close>

definition matchPrefix :: "string \<Rightarrow> 16 word \<Rightarrow> DefenderStatus_t" where
  "matchPrefix pRemainingTopic remainingTopicLength =
     (if unat remainingTopicLength \<ge> DEFENDER_API_PREFIX_LENGTH
      then (if memcmp_is_0 pRemainingTopic DEFENDER_API_PREFIX DEFENDER_API_PREFIX_LENGTH
            then DefenderSuccess else DefenderNoMatch)
      else DefenderNoMatch)"

definition matchBridge :: "string \<Rightarrow> 16 word \<Rightarrow> DefenderStatus_t" where
  "matchBridge pRemainingTopic remainingTopicLength =
     (if unat remainingTopicLength \<ge> DEFENDER_API_BRIDGE_LENGTH
      then (if memcmp_is_0 pRemainingTopic DEFENDER_API_BRIDGE DEFENDER_API_BRIDGE_LENGTH
            then DefenderSuccess else DefenderNoMatch)
      else DefenderNoMatch)"

subsection \<open>extractThingNameLength\<close>

text \<open>
  The loop \<open>for (i = 0; i < remainingTopicLength; i++)\<close> that leaves at the first
  forward slash, from a given \<open>i\<close>; its value is the \<open>i\<close> after the loop.  The counter is
  a \<open>uint16_t\<close>.
\<close>

function findSlash :: "string \<Rightarrow> 16 word \<Rightarrow> 16 word \<Rightarrow> 16 word" where
  "findSlash pRemainingTopic remainingTopicLength i =
     (if i < remainingTopicLength
      then (if pRemainingTopic ! unat i = CHR ''/'' then i
            else findSlash pRemainingTopic remainingTopicLength (i + 1))
      else i)"
  by pat_completeness auto
termination
proof (relation "measure (\<lambda>(p, n, i). unat n - unat i)")
  show "wf (measure (\<lambda>(p, n, i). unat n - unat i))"
    by simp
next
  fix pRemainingTopic :: string and remainingTopicLength i :: "16 word"
  assume less: "i < remainingTopicLength"
  then have below: "unat i < unat remainingTopicLength"
    by (simp add: word_less_nat_alt)
  moreover have "unat remainingTopicLength < 2 ^ 16"
    using unsigned_less [of remainingTopicLength] by simp
  ultimately have "unat i + unat (1 :: 16 word) < 2 ^ LENGTH(16)"
    by simp
  then have "unat (i + 1) = unat i + unat (1 :: 16 word)"
    by (simp only: unat_add_lem)
  with below show "((pRemainingTopic, remainingTopicLength, i + 1),
                    (pRemainingTopic, remainingTopicLength, i))
                   \<in> measure (\<lambda>(p, n, i). unat n - unat i)"
    by simp
qed

text \<open>
  The second component is the content of \<open>*pOutThingNameLength\<close> after the call.
\<close>

definition extractThingNameLength ::
  "string \<Rightarrow> 16 word \<Rightarrow> 16 word \<Rightarrow> DefenderStatus_t \<times> 16 word" where
  "extractThingNameLength pRemainingTopic remainingTopicLength outThingNameLength =
     (let i = findSlash pRemainingTopic remainingTopicLength 0
      in if i > 0 then (DefenderSuccess, i) else (DefenderNoMatch, outThingNameLength))"

subsection \<open>matchApi\<close>

text \<open>
  The loop over the six entries of the tables, from entry \<open>i\<close>; the second component is
  the content of \<open>*pOutApi\<close> after the call.
\<close>

function matchApi_loop ::
  "nat \<Rightarrow> string \<Rightarrow> 16 word \<Rightarrow> DefenderTopic_t \<Rightarrow> DefenderStatus_t \<times> DefenderTopic_t" where
  "matchApi_loop i pRemainingTopic remainingTopicLength outApi =
     (if i < length defenderApi
      then (if remainingTopicLength = defenderApiTopicLength ! i \<and>
               memcmp_is_0 pRemainingTopic (defenderApiTopic ! i)
                 (unat (defenderApiTopicLength ! i))
            then (DefenderSuccess, defenderApi ! i)
            else matchApi_loop (i + 1) pRemainingTopic remainingTopicLength outApi)
      else (DefenderNoMatch, outApi))"
  by pat_completeness auto
termination
  by (relation "measure (\<lambda>(i, p, n, a). length defenderApi - i)") auto

definition matchApi ::
  "string \<Rightarrow> 16 word \<Rightarrow> DefenderTopic_t \<Rightarrow> DefenderStatus_t \<times> DefenderTopic_t" where
  "matchApi pRemainingTopic remainingTopicLength outApi =
     matchApi_loop 0 pRemainingTopic remainingTopicLength outApi"

subsection \<open>Defender_GetTopic\<close>

text \<open>
  The result is the status, the buffer after the call and the content of \<open>*pOutLength\<close>
  after the call.  The three \<open>NULL\<close> tests of the first condition are the pattern match;
  the variable \<open>offset\<close> is a \<open>uint32_t\<close>.
\<close>

definition Defender_GetTopic ::
  "string option \<Rightarrow> 32 word \<Rightarrow> string option \<Rightarrow> 16 word \<Rightarrow> DefenderTopic_t \<Rightarrow> 32 word option
   \<Rightarrow> DefenderStatus_t \<times> string option \<times> 32 word option" where
  "Defender_GetTopic pBuffer bufferLength pThingName thingNameLength api pOutLength =
     (case (pBuffer, pThingName, pOutLength) of
        (Some buffer, Some thingName, Some outLength) \<Rightarrow>
          if thingNameLength = 0 \<or> thingNameLength > DEFENDER_THINGNAME_MAX_LENGTH \<or>
             topicValue api \<le> topicValue DefenderInvalidTopic \<or>
             topicValue api \<ge> topicValue DefenderMaxTopic
          then (DefenderBadParameter, pBuffer, pOutLength)
          else
            (let topicLength = getTopicLength thingNameLength api
             in if bufferLength < topicLength
                then (DefenderBufferTooSmall, pBuffer, pOutLength)
                else
                  (let offset = (0 :: 32 word);
                       buffer = memcpy buffer (unat offset)
                                  DEFENDER_API_PREFIX DEFENDER_API_PREFIX_LENGTH;
                       offset = offset + of_nat DEFENDER_API_PREFIX_LENGTH;
                       buffer = memcpy buffer (unat offset) thingName (unat thingNameLength);
                       offset = offset + ucast thingNameLength;
                       buffer = memcpy buffer (unat offset)
                                  DEFENDER_API_BRIDGE DEFENDER_API_BRIDGE_LENGTH;
                       offset = offset + of_nat DEFENDER_API_BRIDGE_LENGTH;
                       buffer = writeFormatAndSuffix buffer (unat offset) api
                   in (DefenderSuccess, Some buffer, Some topicLength)))
      | _ \<Rightarrow> (DefenderBadParameter, pBuffer, pOutLength))"

subsection \<open>Defender_MatchTopic\<close>

text \<open>
  The result is the status and the contents of \<open>*pOutApi\<close>, \<open>*ppOutThingName\<close> and
  \<open>*pOutThingNameLength\<close> after the call.  The local variables are threaded through the
  four stages as the source does, each stage running only while \<open>ret\<close> is
  \<open>DefenderSuccess\<close>; with \<open>pTopic\<close> or \<open>pOutApi\<close> \<open>NULL\<close> no stage runs and nothing is
  written.
\<close>

definition Defender_MatchTopic ::
  "string option \<Rightarrow> 16 word \<Rightarrow> DefenderTopic_t option \<Rightarrow> char_ptr option \<Rightarrow> 16 word option
   \<Rightarrow> DefenderStatus_t \<times> DefenderTopic_t option \<times> char_ptr option \<times> 16 word option" where
  "Defender_MatchTopic pTopic topicLength pOutApi ppOutThingName pOutThingNameLength =
     (case (pTopic, pOutApi) of
        (Some topic, Some outApi) \<Rightarrow>
          (let remainingTopicLength = topicLength;
               consumedTopicLength = (0 :: 16 word);
               thingNameLength = (0 :: 16 word);
               ret = matchPrefix (drop (unat consumedTopicLength) topic) remainingTopicLength;
               (remainingTopicLength, consumedTopicLength) =
                 (if ret = DefenderSuccess
                  then (remainingTopicLength - of_nat DEFENDER_API_PREFIX_LENGTH,
                        consumedTopicLength + of_nat DEFENDER_API_PREFIX_LENGTH)
                  else (remainingTopicLength, consumedTopicLength));
               (ret, thingNameLength) =
                 (if ret = DefenderSuccess
                  then extractThingNameLength (drop (unat consumedTopicLength) topic)
                         remainingTopicLength thingNameLength
                  else (ret, thingNameLength));
               (remainingTopicLength, consumedTopicLength) =
                 (if ret = DefenderSuccess
                  then (remainingTopicLength - thingNameLength,
                        consumedTopicLength + thingNameLength)
                  else (remainingTopicLength, consumedTopicLength));
               ret =
                 (if ret = DefenderSuccess
                  then matchBridge (drop (unat consumedTopicLength) topic) remainingTopicLength
                  else ret);
               (remainingTopicLength, consumedTopicLength) =
                 (if ret = DefenderSuccess
                  then (remainingTopicLength - of_nat DEFENDER_API_BRIDGE_LENGTH,
                        consumedTopicLength + of_nat DEFENDER_API_BRIDGE_LENGTH)
                  else (remainingTopicLength, consumedTopicLength));
               (ret, outApi) =
                 (if ret = DefenderSuccess
                  then matchApi (drop (unat consumedTopicLength) topic) remainingTopicLength outApi
                  else (ret, outApi));
               ppOutThingName =
                 (if ret = DefenderSuccess
                  then map_option (\<lambda>_. TopicPtr DEFENDER_API_PREFIX_LENGTH) ppOutThingName
                  else ppOutThingName);
               pOutThingNameLength =
                 (if ret = DefenderSuccess
                  then map_option (\<lambda>_. thingNameLength) pOutThingNameLength
                  else pOutThingNameLength);
               outApi = (if ret = DefenderNoMatch then DefenderInvalidTopic else outApi)
           in (ret, Some outApi, ppOutThingName, pOutThingNameLength))
      | _ \<Rightarrow> (DefenderBadParameter, pOutApi, ppOutThingName, pOutThingNameLength))"

section \<open>Auxiliary facts\<close>

subsection \<open>Literals, tables and machine arithmetic\<close>

lemmas literal_defs =
  STRING_LITERAL_LENGTH_def DEFENDER_API_PREFIX_def DEFENDER_API_PREFIX_LENGTH_def
  DEFENDER_API_BRIDGE_def DEFENDER_API_BRIDGE_LENGTH_def
  DEFENDER_API_JSON_REPORT_FORMAT_def DEFENDER_API_JSON_REPORT_FORMAT_LENGTH_def
  DEFENDER_API_CBOR_REPORT_FORMAT_def DEFENDER_API_CBOR_REPORT_FORMAT_LENGTH_def
  DEFENDER_API_ACCEPTED_SUFFIX_def DEFENDER_API_ACCEPTED_SUFFIX_LENGTH_def
  DEFENDER_API_REJECTED_SUFFIX_def DEFENDER_API_REJECTED_SUFFIX_LENGTH_def
  DEFENDER_API_NULL_SUFFIX_LENGTH_def

lemma prefix_length: "DEFENDER_API_PREFIX_LENGTH = 12" "length DEFENDER_API_PREFIX = 12"
  by (simp_all add: literal_defs)

lemma bridge_length: "DEFENDER_API_BRIDGE_LENGTH = 18" "length DEFENDER_API_BRIDGE = 18"
  by (simp_all add: literal_defs)

lemma table_lengths:
  "length defenderApi = 6" "length defenderApiTopic = 6" "length defenderApiTopicLength = 6"
  by (simp_all add: defenderApi_def defenderApiTopic_def defenderApiTopicLength_def)

lemma table_length_entry:
  "i < 6 \<Longrightarrow> unat (defenderApiTopicLength ! i) = length (defenderApiTopic ! i)"
proof -
  assume "i < 6"
  then have "i = 0 \<or> i = 1 \<or> i = 2 \<or> i = 3 \<or> i = 4 \<or> i = 5"
    by arith
  then show ?thesis
    by (auto simp add: defenderApiTopic_def defenderApiTopicLength_def literal_defs)
qed

subsection \<open>The two loops\<close>

text \<open>
  The loop of \<open>matchApi\<close> runs over six entries and unfolds to a chain of six tests; the
  loop of \<open>extractThingNameLength\<close> stops at the first forward slash among the remaining
  bytes, or behind the last of them.
\<close>

lemma matchApi_unfolded:
  "matchApi p n a =
    (if n = 4 \<and> take 4 p = ''json'' then (DefenderSuccess, DefenderJsonReportPublish)
     else if n = 13 \<and> take 13 p = ''json/accepted'' then (DefenderSuccess, DefenderJsonReportAccepted)
     else if n = 13 \<and> take 13 p = ''json/rejected'' then (DefenderSuccess, DefenderJsonReportRejected)
     else if n = 4 \<and> take 4 p = ''cbor'' then (DefenderSuccess, DefenderCborReportPublish)
     else if n = 13 \<and> take 13 p = ''cbor/accepted'' then (DefenderSuccess, DefenderCborReportAccepted)
     else if n = 13 \<and> take 13 p = ''cbor/rejected'' then (DefenderSuccess, DefenderCborReportRejected)
     else (DefenderNoMatch, a))"
  unfolding matchApi_def
  apply (subst matchApi_loop.simps)
  apply (subst matchApi_loop.simps)
  apply (subst matchApi_loop.simps)
  apply (subst matchApi_loop.simps)
  apply (subst matchApi_loop.simps)
  apply (subst matchApi_loop.simps)
  apply (subst matchApi_loop.simps)
  apply (simp add: defenderApi_def defenderApiTopic_def defenderApiTopicLength_def literal_defs memcmp_is_0_def)
  done

lemma word16_Suc:
  fixes i n :: "16 word"
  assumes "i < n"
  shows "unat (i + 1) = Suc (unat i)"
proof -
  from assms have "unat i < unat n"
    by (simp add: word_less_nat_alt)
  moreover have "unat n < 2 ^ 16"
    using unsigned_less [of n] by simp
  ultimately have "unat i + unat (1 :: 16 word) < 2 ^ LENGTH(16)"
    by simp
  then have "unat (i + 1) = unat i + unat (1 :: 16 word)"
    by (simp only: unat_add_lem)
  then show ?thesis
    by simp
qed

lemma findSlash_takeWhile:
  "unat n \<le> length p \<Longrightarrow> unat i \<le> unat n \<Longrightarrow>
   unat (findSlash p n i)
     = unat i + length (takeWhile (\<lambda>c. c \<noteq> CHR ''/'') (drop (unat i) (take (unat n) p)))"
proof (induction p n i rule: findSlash.induct)
  case (1 p n i)
  show ?case
  proof (cases "i < n")
    case True
    then have below: "unat i < unat n"
      by (simp add: word_less_nat_alt)
    with "1.prems" have cons:
      "drop (unat i) (take (unat n) p) = p ! unat i # drop (Suc (unat i)) (take (unat n) p)"
      by (simp add: Cons_nth_drop_Suc [symmetric])
    show ?thesis
    proof (cases "p ! unat i = CHR ''/''")
      case True
      with \<open>i < n\<close> cons show ?thesis
        by (subst findSlash.simps) simp
    next
      case False
      have next_i: "unat (i + 1) = Suc (unat i)"
        using \<open>i < n\<close> by (rule word16_Suc)
      with below have "unat (i + 1) \<le> unat n"
        by simp
      from "1.IH" [OF \<open>i < n\<close> False "1.prems"(1) this] next_i cons False \<open>i < n\<close>
      show ?thesis
        by (subst findSlash.simps) simp
    qed
  next
    case False
    then have "unat n \<le> unat i"
      by (simp add: word_less_nat_alt)
    with False "1.prems" show ?thesis
      by (subst findSlash.simps) simp
  qed
qed

subsection \<open>Defender_MatchTopic, stage by stage\<close>

text \<open>
  Every stage returns \<open>DefenderSuccess\<close> or \<open>DefenderNoMatch\<close>.  The four lemmas after that
  follow one path through the function each: the first stage that fails, or all four.
\<close>

lemma matchPrefix_cases:
  "matchPrefix p n = DefenderSuccess \<or> matchPrefix p n = DefenderNoMatch"
  by (simp add: matchPrefix_def)

lemma matchBridge_cases:
  "matchBridge p n = DefenderSuccess \<or> matchBridge p n = DefenderNoMatch"
  by (simp add: matchBridge_def)

lemma matchApi_cases:
  "fst (matchApi p n a) = DefenderSuccess \<or> matchApi p n a = (DefenderNoMatch, a)"
  by (simp add: matchApi_unfolded)

lemmas stage_rules =
  unsigned_0 drop_0 add_0 DefenderStatus_t.distinct if_False if_True prod.case simp_thms
  fst_conv snd_conv option.map

lemma stage_fail_prefix:
  assumes "matchPrefix topic n = DefenderNoMatch"
  shows "Defender_MatchTopic (Some topic) n (Some a) pp pl
     = (DefenderNoMatch, Some DefenderInvalidTopic, pp, pl)"
  unfolding Defender_MatchTopic_def
  apply (simp only: option.case prod.case)
  apply (simp only: Let_def cong: let_weak_cong)
  apply (simp only: stage_rules assms)
  done

lemma stage_fail_name:
  assumes "matchPrefix topic n = DefenderSuccess"
    and "extractThingNameLength (drop (unat (word_of_nat DEFENDER_API_PREFIX_LENGTH :: 16 word)) topic)
           (n - word_of_nat DEFENDER_API_PREFIX_LENGTH) 0 = (DefenderNoMatch, x)"
  shows "Defender_MatchTopic (Some topic) n (Some a) pp pl
     = (DefenderNoMatch, Some DefenderInvalidTopic, pp, pl)"
  unfolding Defender_MatchTopic_def
  apply (simp only: option.case prod.case)
  apply (simp only: Let_def cong: let_weak_cong)
  apply (simp only: stage_rules assms)
  done

lemma stage_fail_bridge:
  assumes "matchPrefix topic n = DefenderSuccess"
    and "extractThingNameLength (drop (unat (word_of_nat DEFENDER_API_PREFIX_LENGTH :: 16 word)) topic)
           (n - word_of_nat DEFENDER_API_PREFIX_LENGTH) 0 = (DefenderSuccess, tn)"
    and "matchBridge (drop (unat (word_of_nat DEFENDER_API_PREFIX_LENGTH + tn)) topic)
           (n - word_of_nat DEFENDER_API_PREFIX_LENGTH - tn) = DefenderNoMatch"
  shows "Defender_MatchTopic (Some topic) n (Some a) pp pl
     = (DefenderNoMatch, Some DefenderInvalidTopic, pp, pl)"
  unfolding Defender_MatchTopic_def
  apply (simp only: option.case prod.case)
  apply (simp only: Let_def cong: let_weak_cong)
  apply (simp only: stage_rules assms)
  done

lemma stage_api:
  assumes "matchPrefix topic n = DefenderSuccess"
    and "extractThingNameLength (drop (unat (word_of_nat DEFENDER_API_PREFIX_LENGTH :: 16 word)) topic)
           (n - word_of_nat DEFENDER_API_PREFIX_LENGTH) 0 = (DefenderSuccess, tn)"
    and "matchBridge (drop (unat (word_of_nat DEFENDER_API_PREFIX_LENGTH + tn)) topic)
           (n - word_of_nat DEFENDER_API_PREFIX_LENGTH - tn) = DefenderSuccess"
    and "matchApi
           (drop (unat (word_of_nat DEFENDER_API_PREFIX_LENGTH + tn
                          + word_of_nat DEFENDER_API_BRIDGE_LENGTH)) topic)
           (n - word_of_nat DEFENDER_API_PREFIX_LENGTH - tn - word_of_nat DEFENDER_API_BRIDGE_LENGTH)
           a = (r, v)"
  shows "Defender_MatchTopic (Some topic) n (Some a) pp pl
     = (r, Some (if r = DefenderNoMatch then DefenderInvalidTopic else v),
        if r = DefenderSuccess
        then map_option (\<lambda>_. TopicPtr DEFENDER_API_PREFIX_LENGTH) pp else pp,
        if r = DefenderSuccess then map_option (\<lambda>_. tn) pl else pl)"
  unfolding Defender_MatchTopic_def
  apply (simp only: option.case prod.case)
  apply (simp only: Let_def cong: let_weak_cong)
  apply (simp only: stage_rules assms)
  done

subsection \<open>A topic of the grammar is matched\<close>

lemma unat16_minus:
  fixes a b :: "16 word"
  assumes "unat b \<le> unat a"
  shows "unat (a - b) = unat a - unat b"
  using assms by (simp add: unat_sub word_le_nat_alt)

lemma unat16_plus:
  fixes a b :: "16 word"
  assumes "unat a + unat b < 65536"
  shows "unat (a + b) = unat a + unat b"
proof -
  from assms have "unat a + unat b < 2 ^ LENGTH(16)"
    by simp
  then show ?thesis
    by (simp only: unat_add_lem)
qed

lemma unat16_bound: "unat (w :: 16 word) < 65536"
  using unsigned_less [of w] by simp

lemma prefix_word: "unat (word_of_nat DEFENDER_API_PREFIX_LENGTH :: 16 word) = 12"
  by (simp add: prefix_length)

lemma bridge_word: "unat (word_of_nat DEFENDER_API_BRIDGE_LENGTH :: 16 word) = 18"
  by (simp add: bridge_length)

lemma matchPrefix_iff:
  "matchPrefix p n = DefenderSuccess \<longleftrightarrow> 12 \<le> unat n \<and> take 12 p = DEFENDER_API_PREFIX"
  by (simp add: matchPrefix_def memcmp_is_0_def prefix_length)

lemma matchBridge_iff:
  "matchBridge p n = DefenderSuccess \<longleftrightarrow> 18 \<le> unat n \<and> take 18 p = DEFENDER_API_BRIDGE"
  by (simp add: matchBridge_def memcmp_is_0_def bridge_length)

lemma matchApi_entry:
  assumes "i < 6" and "unat m = length (defenderApiTopic ! i)"
  shows "matchApi (defenderApiTopic ! i @ rest) m a = (DefenderSuccess, defenderApi ! i)"
proof -
  have "word_of_nat (unat m) = m"
    by simp
  with assms(2) have m: "m = word_of_nat (length (defenderApiTopic ! i))"
    by simp
  from assms(1) consider "i = 0" | "i = 1" | "i = 2" | "i = 3" | "i = 4" | "i = 5"
    by arith
  then show ?thesis
  proof cases
    case 1
    then show ?thesis
      unfolding m by (simp add: matchApi_unfolded defenderApi_def defenderApiTopic_def literal_defs)
  next
    case 2
    then show ?thesis
      unfolding m by (simp add: matchApi_unfolded defenderApi_def defenderApiTopic_def literal_defs)
  next
    case 3
    then show ?thesis
      unfolding m by (simp add: matchApi_unfolded defenderApi_def defenderApiTopic_def literal_defs)
  next
    case 4
    then show ?thesis
      unfolding m by (simp add: matchApi_unfolded defenderApi_def defenderApiTopic_def literal_defs)
  next
    case 5
    then show ?thesis
      unfolding m by (simp add: matchApi_unfolded defenderApi_def defenderApiTopic_def literal_defs)
  next
    case 6
    then show ?thesis
      unfolding m by (simp add: matchApi_unfolded defenderApi_def defenderApiTopic_def literal_defs)
  qed
qed

lemma matchApi_Success_D:
  assumes "fst (matchApi p m a) = DefenderSuccess"
  shows "take (unat m) p \<in> set defenderApiTopic"
proof -
  from assms have
    "(m = 4 \<and> take 4 p = ''json'') \<or> (m = 13 \<and> take 13 p = ''json/accepted'')
     \<or> (m = 13 \<and> take 13 p = ''json/rejected'') \<or> (m = 4 \<and> take 4 p = ''cbor'')
     \<or> (m = 13 \<and> take 13 p = ''cbor/accepted'') \<or> (m = 13 \<and> take 13 p = ''cbor/rejected'')"
    by (simp add: matchApi_unfolded split: if_splits)
  then show ?thesis
    by (auto simp add: defenderApiTopic_def literal_defs)
qed

lemma extractThingNameLength_name:
  assumes "name \<noteq> []" and "CHR ''/'' \<notin> set name"
    and "unat n = length name + k" and "k = 0 \<or> (k \<le> length rest \<and> hd rest = CHR ''/'')"
  shows "\<exists>tn. extractThingNameLength (name @ rest) n x = (DefenderSuccess, tn)
              \<and> unat tn = length name"
proof -
  have tw: "takeWhile (\<lambda>c. c \<noteq> CHR ''/'') (take (unat n) (name @ rest)) = name"
  proof (cases "k = 0")
    case True
    with assms(2,3) show ?thesis by auto
  next
    case False
    with assms(4) obtain r rs where rest: "rest = CHR ''/'' # rs" and "k \<le> length rest"
      by (cases rest) auto
    with False assms(2,3) show ?thesis
      by (cases k) (auto simp add: takeWhile_tail)
  qed
  have "unat n \<le> length (name @ rest)"
    using assms(3,4) by auto
  from findSlash_takeWhile [OF this, of 0] tw
  have "unat (findSlash (name @ rest) n 0) = length name"
    by simp
  moreover from this assms(1) have "0 < findSlash (name @ rest) n 0"
    by (cases "findSlash (name @ rest) n 0 = 0") (simp_all add: word_gt_0)
  ultimately show ?thesis
    by (simp add: extractThingNameLength_def Let_def)
qed

lemma MatchTopic_accepts:
  assumes i: "i < 6" and name: "name \<noteq> []" "CHR ''/'' \<notin> set name"
    and n: "unat n = 12 + length name + 18 + length (defenderApiTopic ! i)"
  shows "Defender_MatchTopic
           (Some (DEFENDER_API_PREFIX @ name @ DEFENDER_API_BRIDGE @ defenderApiTopic ! i @ rest))
           n (Some a) pp pl
     = (DefenderSuccess, Some (defenderApi ! i),
        map_option (\<lambda>_. TopicPtr 12) pp, map_option (\<lambda>_. word_of_nat (length name)) pl)"
proof -
  define s where "s = defenderApiTopic ! i"
  define topic where "topic = DEFENDER_API_PREFIX @ name @ DEFENDER_API_BRIDGE @ s @ rest"
  define P :: "16 word" where "P = word_of_nat DEFENDER_API_PREFIX_LENGTH"
  define B :: "16 word" where "B = word_of_nat DEFENDER_API_BRIDGE_LENGTH"
  have uP: "unat P = 12" and uB: "unat B = 18"
    by (simp_all add: P_def B_def prefix_word bridge_word)
  have n': "unat n = 12 + length name + 18 + length s"
    using n by (simp add: s_def)
  have mp: "matchPrefix topic n = DefenderSuccess"
    by (simp add: matchPrefix_iff n' topic_def prefix_length)
  have rem1: "unat (n - P) = length name + (18 + length s)"
    using unat16_minus [of P n] by (simp add: uP n')
  have drop1: "drop (unat P) topic = name @ (DEFENDER_API_BRIDGE @ s @ rest)"
    by (simp add: uP topic_def prefix_length)
  have "\<exists>tn. extractThingNameLength (name @ (DEFENDER_API_BRIDGE @ s @ rest)) (n - P) 0
                = (DefenderSuccess, tn) \<and> unat tn = length name"
    using name rem1
    by (rule extractThingNameLength_name) (simp add: DEFENDER_API_BRIDGE_def)
  then obtain tn where
    ex: "extractThingNameLength (drop (unat P) topic) (n - P) 0 = (DefenderSuccess, tn)"
    and utn: "unat tn = length name"
    unfolding drop1 by blast
  have con2: "unat (P + tn) = 12 + length name"
    using unat16_plus [of P tn] unat16_bound [of n] by (simp add: uP utn n')
  have rem2: "unat (n - P - tn) = 18 + length s"
    using unat16_minus [of tn "n - P"] by (simp add: rem1 utn)
  have drop2: "drop (unat (P + tn)) topic = DEFENDER_API_BRIDGE @ s @ rest"
    by (simp add: con2 topic_def prefix_length)
  have mb: "matchBridge (drop (unat (P + tn)) topic) (n - P - tn) = DefenderSuccess"
    by (simp add: matchBridge_iff drop2 rem2 bridge_length)
  have con3: "unat (P + tn + B) = 30 + length name"
    using unat16_plus [of "P + tn" B] unat16_bound [of n] by (simp add: uB con2 n')
  have rem3: "unat (n - P - tn - B) = length s"
    using unat16_minus [of B "n - P - tn"] by (simp add: rem2 uB)
  have drop3: "drop (unat (P + tn + B)) topic = s @ rest"
    by (simp add: con3 topic_def prefix_length bridge_length)
  have ma: "matchApi (drop (unat (P + tn + B)) topic) (n - P - tn - B) a
              = (DefenderSuccess, defenderApi ! i)"
    unfolding drop3 s_def using i rem3 [unfolded s_def] by (rule matchApi_entry)
  have "word_of_nat (unat tn) = tn"
    by simp
  then have tn: "tn = word_of_nat (length name)"
    by (simp add: utn)
  from stage_api [OF mp ex [unfolded P_def] mb [unfolded P_def] ma [unfolded P_def B_def]]
  show ?thesis
    by (simp add: topic_def s_def tn prefix_length)
qed

subsection \<open>The writes of Defender_GetTopic\<close>

lemma memcpy_at:
  "length pre = offset \<Longrightarrow> memcpy (pre @ rest) offset src n = pre @ take n src @ drop n rest"
  by (simp add: memcpy_def)

lemma writeFormatAndSuffix_at:
  assumes "i < 6" and "length pre = offset"
  shows "writeFormatAndSuffix (pre @ rest) offset (defenderApi ! i)
           = pre @ defenderApiTopic ! i @ drop (length (defenderApiTopic ! i)) rest"
proof -
  from assms(1) consider "i = 0" | "i = 1" | "i = 2" | "i = 3" | "i = 4" | "i = 5"
    by arith
  then show ?thesis
  proof cases
    case 1
    with assms(2) show ?thesis
      by (simp add: defenderApi_def defenderApiTopic_def memcpy_def literal_defs eval_nat_numeral)
  next
    case 2
    with assms(2) show ?thesis
      by (simp add: defenderApi_def defenderApiTopic_def memcpy_def literal_defs eval_nat_numeral)
  next
    case 3
    with assms(2) show ?thesis
      by (simp add: defenderApi_def defenderApiTopic_def memcpy_def literal_defs eval_nat_numeral)
  next
    case 4
    with assms(2) show ?thesis
      by (simp add: defenderApi_def defenderApiTopic_def memcpy_def literal_defs eval_nat_numeral)
  next
    case 5
    with assms(2) show ?thesis
      by (simp add: defenderApi_def defenderApiTopic_def memcpy_def literal_defs eval_nat_numeral)
  next
    case 6
    with assms(2) show ?thesis
      by (simp add: defenderApi_def defenderApiTopic_def memcpy_def literal_defs eval_nat_numeral)
  qed
qed

lemmas length_macro_defs =
  DEFENDER_API_COMMON_LENGTH_def
  DEFENDER_API_JSON_REPORT_PUBLISH_LENGTH_def DEFENDER_API_JSON_REPORT_ACCEPTED_LENGTH_def
  DEFENDER_API_JSON_REPORT_REJECTED_LENGTH_def DEFENDER_API_CBOR_REPORT_PUBLISH_LENGTH_def
  DEFENDER_API_CBOR_REPORT_ACCEPTED_LENGTH_def DEFENDER_API_CBOR_REPORT_REJECTED_LENGTH_def

lemma getTopicLength_entry:
  assumes "i < 6"
  shows "getTopicLength thingNameLength (defenderApi ! i)
           = word_of_nat (DEFENDER_API_PREFIX_LENGTH + unat thingNameLength
                            + DEFENDER_API_BRIDGE_LENGTH + length (defenderApiTopic ! i))"
proof -
  from assms have "i = 0 \<or> i = 1 \<or> i = 2 \<or> i = 3 \<or> i = 4 \<or> i = 5"
    by arith
  then show ?thesis
    by (auto simp add: defenderApi_def defenderApiTopic_def length_macro_defs literal_defs)
qed

lemma valid_entry:
  assumes "i < 6"
  shows "topicValue DefenderInvalidTopic < topicValue (defenderApi ! i)
         \<and> topicValue (defenderApi ! i) < topicValue DefenderMaxTopic"
proof -
  from assms have "i = 0 \<or> i = 1 \<or> i = 2 \<or> i = 3 \<or> i = 4 \<or> i = 5"
    by arith
  then show ?thesis
    by (auto simp add: defenderApi_def)
qed

lemma unat32_of_nat: "k < 4294967296 \<Longrightarrow> unat (word_of_nat k :: 32 word) = k"
  by (simp add: unat_of_nat)

lemma unat_getTopicLength:
  assumes "i < 6"
  shows "unat (getTopicLength thingNameLength (defenderApi ! i))
           = 12 + unat thingNameLength + 18 + length (defenderApiTopic ! i)"
proof -
  have "length (defenderApiTopic ! i) \<le> 13"
    using table_length_entry [OF assms] assms
    by (auto simp add: defenderApiTopic_def literal_defs less_Suc_eq numeral_eq_Suc nth_Cons')
  with unat16_bound [of thingNameLength]
  have "12 + unat thingNameLength + 18 + length (defenderApiTopic ! i) < 4294967296"
    by simp
  then show ?thesis
    unfolding getTopicLength_entry [OF assms] prefix_length bridge_length
    by (rule unat32_of_nat)
qed

lemma unat32_plus:
  fixes a b :: "32 word"
  assumes "unat a + unat b < 4294967296"
  shows "unat (a + b) = unat a + unat b"
proof -
  from assms have "unat a + unat b < 2 ^ LENGTH(32)"
    by simp
  then show ?thesis
    by (simp only: unat_add_lem)
qed

lemma unat32_ucast16: "unat (ucast (w :: 16 word) :: 32 word) = unat w"
proof -
  have "unat w < 65536"
    by (rule unat16_bound)
  then have "unat w < 2 ^ 32"
    by simp
  then show ?thesis
    by (simp add: unsigned_ucast_eq take_bit_nat_eq_self)
qed

lemma GetTopic_offsets:
  fixes thingNameLength :: "16 word"
  shows "unat (word_of_nat DEFENDER_API_PREFIX_LENGTH :: 32 word) = 12"
    and "unat (word_of_nat DEFENDER_API_PREFIX_LENGTH + ucast thingNameLength :: 32 word)
           = 12 + unat thingNameLength"
    and "unat (word_of_nat DEFENDER_API_PREFIX_LENGTH + ucast thingNameLength
                 + word_of_nat DEFENDER_API_BRIDGE_LENGTH :: 32 word)
           = 30 + unat thingNameLength"
proof -
  show p: "unat (word_of_nat DEFENDER_API_PREFIX_LENGTH :: 32 word) = 12"
    by (simp add: prefix_length)
  have b: "unat (word_of_nat DEFENDER_API_BRIDGE_LENGTH :: 32 word) = 18"
    by (simp add: bridge_length)
  show n: "unat (word_of_nat DEFENDER_API_PREFIX_LENGTH + ucast thingNameLength :: 32 word)
           = 12 + unat thingNameLength"
    using unat32_plus [of "word_of_nat DEFENDER_API_PREFIX_LENGTH" "ucast thingNameLength"]
      unat16_bound [of thingNameLength]
    by (simp add: p unat32_ucast16)
  show "unat (word_of_nat DEFENDER_API_PREFIX_LENGTH + ucast thingNameLength
                 + word_of_nat DEFENDER_API_BRIDGE_LENGTH :: 32 word)
           = 30 + unat thingNameLength"
    using unat32_plus [of "word_of_nat DEFENDER_API_PREFIX_LENGTH + ucast thingNameLength"
        "word_of_nat DEFENDER_API_BRIDGE_LENGTH"]
      unat16_bound [of thingNameLength]
    by (simp add: n b)
qed

lemma GetTopic_Success:
  assumes i: "i < 6" and len: "thingNameLength \<noteq> 0" "thingNameLength \<le> 128"
    and room: "getTopicLength thingNameLength (defenderApi ! i) \<le> bufferLength"
    and name: "unat thingNameLength \<le> length thingName"
  shows "Defender_GetTopic (Some buffer) bufferLength (Some thingName) thingNameLength
           (defenderApi ! i) (Some outLength)
     = (DefenderSuccess,
        Some (DEFENDER_API_PREFIX @ take (unat thingNameLength) thingName @ DEFENDER_API_BRIDGE
                @ defenderApiTopic ! i
                @ drop (unat (getTopicLength thingNameLength (defenderApi ! i))) buffer),
        Some (getTopicLength thingNameLength (defenderApi ! i)))"
proof -
  define t where "t = unat thingNameLength"
  define s where "s = defenderApiTopic ! i"
  have cond: "\<not> (thingNameLength = 0 \<or> thingNameLength > DEFENDER_THINGNAME_MAX_LENGTH \<or>
             topicValue (defenderApi ! i) \<le> topicValue DefenderInvalidTopic \<or>
             topicValue (defenderApi ! i) \<ge> topicValue DefenderMaxTopic)"
    using len valid_entry [OF i] by (simp add: DEFENDER_THINGNAME_MAX_LENGTH_def not_less)
  have room': "\<not> bufferLength < getTopicLength thingNameLength (defenderApi ! i)"
    using room by (simp add: not_less)
  have lt: "length (take t thingName) = t"
    using name by (simp add: t_def)
  have b1: "memcpy buffer 0 DEFENDER_API_PREFIX DEFENDER_API_PREFIX_LENGTH
              = DEFENDER_API_PREFIX @ drop 12 buffer"
    using memcpy_at [of "[]" 0 buffer DEFENDER_API_PREFIX 12] by (simp add: prefix_length)
  have b2: "memcpy (DEFENDER_API_PREFIX @ drop 12 buffer) 12 thingName t
              = (DEFENDER_API_PREFIX @ take t thingName) @ drop (12 + t) buffer"
    using memcpy_at [of DEFENDER_API_PREFIX 12 "drop 12 buffer" thingName t]
    by (simp add: prefix_length add.commute)
  have b3: "memcpy ((DEFENDER_API_PREFIX @ take t thingName) @ drop (12 + t) buffer) (12 + t)
              DEFENDER_API_BRIDGE DEFENDER_API_BRIDGE_LENGTH
              = (DEFENDER_API_PREFIX @ take t thingName @ DEFENDER_API_BRIDGE)
                  @ drop (30 + t) buffer"
    using memcpy_at [of "DEFENDER_API_PREFIX @ take t thingName" "12 + t" "drop (12 + t) buffer"
        DEFENDER_API_BRIDGE 18] lt
    by (simp add: prefix_length bridge_length add.commute)
  have b4: "writeFormatAndSuffix
              ((DEFENDER_API_PREFIX @ take t thingName @ DEFENDER_API_BRIDGE) @ drop (30 + t) buffer)
              (30 + t) (defenderApi ! i)
              = (DEFENDER_API_PREFIX @ take t thingName @ DEFENDER_API_BRIDGE) @ s
                  @ drop (12 + t + 18 + length s) buffer"
    using writeFormatAndSuffix_at [OF i,
        of "DEFENDER_API_PREFIX @ take t thingName @ DEFENDER_API_BRIDGE" "30 + t"
           "drop (30 + t) buffer"] lt
    by (simp add: prefix_length bridge_length s_def add.commute add.left_commute)
  show ?thesis
    unfolding Defender_GetTopic_def
    apply (simp only: option.case prod.case cond if_False room' Let_def add_0 unsigned_0
             GetTopic_offsets t_def [symmetric] b1 b2 b3 b4)
    apply (simp add: unat_getTopicLength [OF i] t_def s_def)
    done
qed

subsection \<open>What a match implies\<close>

lemma findSlash_le:
  assumes "unat n \<le> length p"
  shows "unat (findSlash p n 0) \<le> unat n"
proof -
  have "length (takeWhile (\<lambda>c. c \<noteq> CHR ''/'') (take (unat n) p)) \<le> length (take (unat n) p)"
    by (rule length_takeWhile_le)
  with assms findSlash_takeWhile [OF assms, of 0] show ?thesis
    by simp
qed

lemma extractThingNameLength_cases:
  "extractThingNameLength p n x = (DefenderNoMatch, x) \<and> findSlash p n 0 = 0
   \<or> extractThingNameLength p n x = (DefenderSuccess, findSlash p n 0) \<and> findSlash p n 0 \<noteq> 0"
  by (simp add: extractThingNameLength_def Let_def word_gt_0)

lemma MatchTopic_cases:
  fixes topic :: string and n :: "16 word"
  defines "P \<equiv> word_of_nat DEFENDER_API_PREFIX_LENGTH :: 16 word"
    and "B \<equiv> word_of_nat DEFENDER_API_BRIDGE_LENGTH :: 16 word"
  defines "tn \<equiv> findSlash (drop (unat P) topic) (n - P) 0"
  shows "Defender_MatchTopic (Some topic) n (Some a) pp pl
           = (DefenderNoMatch, Some DefenderInvalidTopic, pp, pl)
         \<or> (matchPrefix topic n = DefenderSuccess \<and> tn \<noteq> 0
            \<and> matchBridge (drop (unat (P + tn)) topic) (n - P - tn) = DefenderSuccess
            \<and> fst (matchApi (drop (unat (P + tn + B)) topic) (n - P - tn - B) a) = DefenderSuccess
            \<and> Defender_MatchTopic (Some topic) n (Some a) pp pl
                = (DefenderSuccess,
                   Some (snd (matchApi (drop (unat (P + tn + B)) topic) (n - P - tn - B) a)),
                   map_option (\<lambda>_. TopicPtr 12) pp, map_option (\<lambda>_. tn) pl))"
proof -
  obtain r v where ma: "matchApi (drop (unat (P + tn + B)) topic) (n - P - tn - B) a = (r, v)"
    by (cases "matchApi (drop (unat (P + tn + B)) topic) (n - P - tn - B) a")
  have r: "r = DefenderSuccess \<or> r = DefenderNoMatch"
    using matchApi_cases [of "drop (unat (P + tn + B)) topic" "n - P - tn - B" a] ma by auto
  consider (prefix) "matchPrefix topic n = DefenderNoMatch"
    | (name) "matchPrefix topic n = DefenderSuccess"
        "extractThingNameLength (drop (unat P) topic) (n - P) 0 = (DefenderNoMatch, 0)"
    | (bridge) "matchPrefix topic n = DefenderSuccess"
        "extractThingNameLength (drop (unat P) topic) (n - P) 0 = (DefenderSuccess, tn)"
        "matchBridge (drop (unat (P + tn)) topic) (n - P - tn) = DefenderNoMatch"
    | (api) "matchPrefix topic n = DefenderSuccess"
        "extractThingNameLength (drop (unat P) topic) (n - P) 0 = (DefenderSuccess, tn)"
        "tn \<noteq> 0"
        "matchBridge (drop (unat (P + tn)) topic) (n - P - tn) = DefenderSuccess"
    using matchPrefix_cases [of topic n]
      extractThingNameLength_cases [of "drop (unat P) topic" "n - P" 0]
      matchBridge_cases [of "drop (unat (P + tn)) topic" "n - P - tn"]
    unfolding tn_def by blast
  then show ?thesis
  proof cases
    case prefix
    then show ?thesis
      by (simp add: stage_fail_prefix)
  next
    case name
    from stage_fail_name [OF name [unfolded P_def]] show ?thesis
      by simp
  next
    case bridge
    from stage_fail_bridge [OF bridge [unfolded P_def]] show ?thesis
      by simp
  next
    case api
    note result = stage_api [OF api(1) api(2) [unfolded P_def] api(4) [unfolded P_def]
        ma [unfolded P_def B_def], of pp pl]
    from r show ?thesis
    proof
      assume "r = DefenderSuccess"
      with result api ma show ?thesis
        by (simp add: prefix_length)
    next
      assume "r = DefenderNoMatch"
      with result show ?thesis
        by simp
    qed
  qed
qed

lemma MatchTopic_status:
  "fst (Defender_MatchTopic (Some topic) n (Some a) pp pl) = DefenderSuccess
   \<or> fst (Defender_MatchTopic (Some topic) n (Some a) pp pl) = DefenderNoMatch"
proof -
  from MatchTopic_cases [of topic n a pp pl] show ?thesis
  proof (elim disjE conjE)
    assume "Defender_MatchTopic (Some topic) n (Some a) pp pl
              = (DefenderNoMatch, Some DefenderInvalidTopic, pp, pl)"
    then show ?thesis
      by (simp only: fst_conv simp_thms)
  next
    fix res
    assume "Defender_MatchTopic (Some topic) n (Some a) pp pl = (DefenderSuccess, res)"
    then show ?thesis
      by (simp only: fst_conv simp_thms)
  qed
qed

lemma MatchTopic_Success_suffix:
  assumes ok: "fst (Defender_MatchTopic (Some topic) n (Some a) pp pl) = DefenderSuccess"
    and mem: "unat n \<le> length topic"
  shows "\<exists>s \<in> set defenderApiTopic. \<exists>pre. take (unat n) topic = pre @ s"
proof -
  define P :: "16 word" where "P = word_of_nat DEFENDER_API_PREFIX_LENGTH"
  define B :: "16 word" where "B = word_of_nat DEFENDER_API_BRIDGE_LENGTH"
  define tn where "tn = findSlash (drop (unat P) topic) (n - P) 0"
  have uP: "unat P = 12" and uB: "unat B = 18"
    by (simp_all add: P_def B_def prefix_word bridge_word)
  from ok have "Defender_MatchTopic (Some topic) n (Some a) pp pl
                  \<noteq> (DefenderNoMatch, Some DefenderInvalidTopic, pp, pl)"
    by auto
  with MatchTopic_cases [of topic n a pp pl]
  have mp: "matchPrefix topic n = DefenderSuccess"
    and mb: "matchBridge (drop (unat (P + tn)) topic) (n - P - tn) = DefenderSuccess"
    and ma: "fst (matchApi (drop (unat (P + tn + B)) topic) (n - P - tn - B) a) = DefenderSuccess"
    unfolding P_def B_def tn_def by blast+
  from mp have n12: "12 \<le> unat n"
    by (simp add: matchPrefix_iff)
  then have rem1: "unat (n - P) = unat n - 12"
    using unat16_minus [of P n] by (simp add: uP)
  have "unat (n - P) \<le> length (drop (unat P) topic)"
    using mem by (simp add: rem1 uP)
  then have tn_le: "unat tn \<le> unat n - 12"
    unfolding tn_def using findSlash_le [of "n - P" "drop (unat P) topic"] by (simp add: rem1)
  then have rem2: "unat (n - P - tn) = unat n - 12 - unat tn"
    using unat16_minus [of tn "n - P"] by (simp add: rem1)
  from mb have b18: "18 \<le> unat n - 12 - unat tn"
    by (simp add: matchBridge_iff rem2)
  then have rem3: "unat (n - P - tn - B) = unat n - 12 - unat tn - 18"
    using unat16_minus [of B "n - P - tn"] by (simp add: rem2 uB)
  have con2: "unat (P + tn) = 12 + unat tn"
    using unat16_plus [of P tn] unat16_bound [of n] n12 tn_le by (simp add: uP)
  have con3: "unat (P + tn + B) = 30 + unat tn"
    using unat16_plus [of "P + tn" B] unat16_bound [of n] n12 tn_le b18 by (simp add: con2 uB)
  have total: "unat (P + tn + B) + unat (n - P - tn - B) = unat n"
    using n12 tn_le b18 by (simp add: con3 rem3)
  from ma have "take (unat (n - P - tn - B)) (drop (unat (P + tn + B)) topic)
                    \<in> set defenderApiTopic"
    by (rule matchApi_Success_D)
  moreover have "take (unat n) topic
      = take (unat (P + tn + B)) topic
          @ take (unat (n - P - tn - B)) (drop (unat (P + tn + B)) topic)"
    unfolding total [symmetric] by (rule take_add)
  ultimately show ?thesis
    by blast
qed

lemma GetTopic_Success_D:
  assumes "fst (Defender_GetTopic (Some buffer) bufferLength (Some thingName) thingNameLength api
             (Some outLength)) = DefenderSuccess"
  shows "thingNameLength \<noteq> 0 \<and> thingNameLength \<le> 128
         \<and> getTopicLength thingNameLength api \<le> bufferLength"
proof -
  have "fst (Defender_GetTopic (Some buffer) bufferLength (Some thingName) thingNameLength api
               (Some outLength))
          = (if thingNameLength = 0 \<or> thingNameLength > DEFENDER_THINGNAME_MAX_LENGTH \<or>
                topicValue api \<le> topicValue DefenderInvalidTopic \<or>
                topicValue api \<ge> topicValue DefenderMaxTopic
             then DefenderBadParameter
             else if bufferLength < getTopicLength thingNameLength api
             then DefenderBufferTooSmall else DefenderSuccess)"
    unfolding Defender_GetTopic_def
    by (simp only: option.case prod.case Let_def if_distrib [of fst] fst_conv)
  with assms show ?thesis
    by (simp add: DEFENDER_THINGNAME_MAX_LENGTH_def not_less split: if_splits)
qed

lemma GetTopic_too_small:
  assumes "i < 6" and "thingNameLength \<noteq> 0" "thingNameLength \<le> 128"
    and "bufferLength < getTopicLength thingNameLength (defenderApi ! i)"
  shows "Defender_GetTopic (Some buffer) bufferLength (Some thingName) thingNameLength
           (defenderApi ! i) (Some outLength)
         = (DefenderBufferTooSmall, Some buffer, Some outLength)"
proof -
  have cond: "\<not> (thingNameLength = 0 \<or> thingNameLength > DEFENDER_THINGNAME_MAX_LENGTH \<or>
             topicValue (defenderApi ! i) \<le> topicValue DefenderInvalidTopic \<or>
             topicValue (defenderApi ! i) \<ge> topicValue DefenderMaxTopic)"
    using assms(2,3) valid_entry [OF assms(1)]
    by (simp add: DEFENDER_THINGNAME_MAX_LENGTH_def not_less)
  show ?thesis
    unfolding Defender_GetTopic_def
    by (simp only: option.case prod.case cond if_False assms(4) if_True Let_def)
qed

lemma unat16_ucast32:
  assumes "unat (w :: 32 word) < 65536"
  shows "unat (ucast w :: 16 word) = unat w"
proof -
  from assms have "unat w < 2 ^ 16"
    by simp
  then show ?thesis
    by (simp add: unsigned_ucast_eq take_bit_nat_eq_self)
qed

lemma table_entry_le: "i < 6 \<Longrightarrow> length (defenderApiTopic ! i) \<le> 13"
proof -
  assume "i < 6"
  then have "i = 0 \<or> i = 1 \<or> i = 2 \<or> i = 3 \<or> i = 4 \<or> i = 5"
    by arith
  then show ?thesis
    by (auto simp add: defenderApiTopic_def literal_defs)
qed

lemma table_set:
  "set defenderApiTopic
     = {''json'', ''json/accepted'', ''json/rejected'', ''cbor'', ''cbor/accepted'', ''cbor/rejected''}"
  by (simp add: defenderApiTopic_def literal_defs)

lemma matchApi_iff:
  assumes "unat n \<le> length p"
  shows "fst (matchApi p n outApi) = DefenderSuccess
           \<longleftrightarrow> take (unat n) p \<in> set defenderApiTopic"
proof
  assume "fst (matchApi p n outApi) = DefenderSuccess"
  then show "take (unat n) p \<in> set defenderApiTopic"
    by (rule matchApi_Success_D)
next
  assume "take (unat n) p \<in> set defenderApiTopic"
  then obtain i where i: "i < 6" and entry: "defenderApiTopic ! i = take (unat n) p"
    by (auto simp add: in_set_conv_nth table_lengths)
  from assms entry have n: "unat n = length (defenderApiTopic ! i)"
    by simp
  have "p = defenderApiTopic ! i @ drop (unat n) p"
    by (simp add: entry)
  with matchApi_entry [OF i n, of "drop (unat n) p" outApi]
  have "matchApi p n outApi = (DefenderSuccess, defenderApi ! i)"
    by simp
  then show "fst (matchApi p n outApi) = DefenderSuccess"
    by simp
qed

lemma MatchTopic_not_Success:
  assumes "fst (Defender_MatchTopic (Some topic) n (Some a) pp pl) \<noteq> DefenderSuccess"
  shows "Defender_MatchTopic (Some topic) n (Some a) pp pl
           = (DefenderNoMatch, Some DefenderInvalidTopic, pp, pl)"
proof -
  from MatchTopic_cases [of topic n a pp pl] show ?thesis
  proof (elim disjE conjE)
    assume "Defender_MatchTopic (Some topic) n (Some a) pp pl
              = (DefenderNoMatch, Some DefenderInvalidTopic, pp, pl)"
    then show ?thesis .
  next
    fix res
    assume "Defender_MatchTopic (Some topic) n (Some a) pp pl = (DefenderSuccess, res)"
    then have "fst (Defender_MatchTopic (Some topic) n (Some a) pp pl) = DefenderSuccess"
      by (simp only: fst_conv)
    with assms show ?thesis
      by (rule notE)
  qed
qed

lemma word16_eq_unat: "unat (v :: 16 word) = unat w \<Longrightarrow> v = w"
  by (simp add: word_unat_eq_iff)

lemma findSlash_no_slash:
  assumes mem: "unat n \<le> length p" and none: "CHR ''/'' \<notin> set (take (unat n) p)"
  shows "findSlash p n 0 = n"
proof -
  from none have "takeWhile (\<lambda>c. c \<noteq> CHR ''/'') (take (unat n) p) = take (unat n) p"
    by (auto simp add: takeWhile_eq_all_conv)
  with findSlash_takeWhile [OF mem, of 0] mem have "unat (findSlash p n 0) = unat n"
    by simp
  then show ?thesis
    by (rule word16_eq_unat)
qed

section \<open>Parameter checks and the outputs of a failed match\<close>

text \<open>
  C9.  \<open>Defender_GetTopic\<close> returns \<open>DefenderBadParameter\<close> when \<open>pOutLength\<close> is \<open>NULL\<close>,
  whatever the other arguments are, so also when the buffer, the thing name, its length
  and the topic value are all valid; it writes nothing.
\<close>

theorem GetTopic_null_pOutLength:
  "Defender_GetTopic pBuffer bufferLength pThingName thingNameLength api None
     = (DefenderBadParameter, pBuffer, None)"
  by (simp add: Defender_GetTopic_def split: option.split)

text \<open>
  C10.  When \<open>pTopic\<close> is \<open>NULL\<close> and \<open>pOutApi\<close> is not, \<open>Defender_MatchTopic\<close> returns
  \<open>DefenderBadParameter\<close> and \<open>*pOutApi\<close> keeps the value it had: the invalid-topic value
  is not written on this outcome.  The two optional outputs are unchanged as well.
\<close>

theorem MatchTopic_null_topic_keeps_outApi:
  "Defender_MatchTopic None topicLength (Some outApi) ppOutThingName pOutThingNameLength
     = (DefenderBadParameter, Some outApi, ppOutThingName, pOutThingNameLength)"
  by (simp add: Defender_MatchTopic_def)

text \<open>
  C7.  Whenever \<open>Defender_MatchTopic\<close> returns \<open>DefenderNoMatch\<close>, \<open>*pOutApi\<close> holds
  \<open>DefenderInvalidTopic\<close> after the call, and the slots of the thing-name pointer and of
  the thing-name length hold what they held before.
\<close>

theorem MatchTopic_NoMatch_outputs:
  "fst (Defender_MatchTopic pTopic topicLength pOutApi ppOutThingName pOutThingNameLength)
     = DefenderNoMatch
   \<Longrightarrow> snd (Defender_MatchTopic pTopic topicLength pOutApi ppOutThingName pOutThingNameLength)
     = (Some DefenderInvalidTopic, ppOutThingName, pOutThingNameLength)"
  by (auto simp add: Defender_MatchTopic_def Let_def split: option.splits prod.splits if_splits)

theorem MatchTopic_NoMatch_outputs_witness:
  "fst (Defender_MatchTopic (Some ''$aws/things/MyThing'') 19
          (Some DefenderCborReportPublish) (Some (OtherPtr 7)) (Some 5)) = DefenderNoMatch
   \<and> snd (Defender_MatchTopic (Some ''$aws/things/MyThing'') 19
          (Some DefenderCborReportPublish) (Some (OtherPtr 7)) (Some 5))
       = (Some DefenderInvalidTopic, Some (OtherPtr 7), Some 5)"
proof -
  have failed:
    "fst (Defender_MatchTopic (Some ''$aws/things/MyThing'') 19
            (Some DefenderCborReportPublish) (Some (OtherPtr 7)) (Some 5)) = DefenderNoMatch"
    by code_simp
  from failed MatchTopic_NoMatch_outputs [OF failed] show ?thesis
    by (rule conjI)
qed

section \<open>The topic written by Defender_GetTopic\<close>

text \<open>
  The six valid topic values are the entries \<open>defenderApi ! i\<close>, \<open>i < 6\<close>, of the table of the
  source; the format and suffix of a variant are the entry \<open>defenderApiTopic ! i\<close> of the
  parallel table, and their length is \<open>defenderApiTopicLength ! i\<close>.  The thing name is the
  first \<open>thingNameLength\<close> bytes of the memory at \<open>pThingName\<close>.
\<close>

text \<open>
  C2.  When \<open>Defender_GetTopic\<close> returns \<open>DefenderSuccess\<close> for a valid variant, the buffer
  holds, from its first byte on and in this order, the prefix \<open>$aws/things/\<close>, the bytes of
  the thing name unchanged, the bridge \<open>/defender/metrics/\<close> and the format and suffix of the
  variant, followed by the bytes the buffer held there before; these four parts are
  \<open>requiredLength\<close> bytes, the sum of the lengths of prefix, thing name, bridge, and format
  and suffix, and \<open>*pOutLength\<close> is that number.
\<close>

theorem GetTopic_success_contents:
  fixes thingNameLength :: "16 word" and i :: nat
  defines "requiredLength \<equiv>
             DEFENDER_API_PREFIX_LENGTH + unat thingNameLength + DEFENDER_API_BRIDGE_LENGTH
               + unat (defenderApiTopicLength ! i)"
  assumes variant: "i < 6"
    and name: "unat thingNameLength \<le> length thingName"
    and built: "Defender_GetTopic (Some buffer) bufferLength (Some thingName) thingNameLength
                  (defenderApi ! i) (Some outLength) = (DefenderSuccess, pBuffer', pOutLength')"
  shows "pOutLength' = Some (word_of_nat requiredLength)
         \<and> unat (word_of_nat requiredLength :: 32 word) = requiredLength
         \<and> pBuffer' = Some (DEFENDER_API_PREFIX @ take (unat thingNameLength) thingName
                              @ DEFENDER_API_BRIDGE @ defenderApiTopic ! i
                              @ drop requiredLength buffer)
         \<and> length (DEFENDER_API_PREFIX @ take (unat thingNameLength) thingName
                     @ DEFENDER_API_BRIDGE @ defenderApiTopic ! i) = requiredLength"
proof -
  from built have "fst (Defender_GetTopic (Some buffer) bufferLength (Some thingName)
                          thingNameLength (defenderApi ! i) (Some outLength)) = DefenderSuccess"
    by (simp only: fst_conv)
  then have valid: "thingNameLength \<noteq> 0" "thingNameLength \<le> 128"
    "getTopicLength thingNameLength (defenderApi ! i) \<le> bufferLength"
    using GetTopic_Success_D by blast+
  have req: "requiredLength = 12 + unat thingNameLength + 18 + length (defenderApiTopic ! i)"
    by (simp add: requiredLength_def prefix_length bridge_length table_length_entry [OF variant])
  have len: "getTopicLength thingNameLength (defenderApi ! i) = word_of_nat requiredLength"
    by (simp only: getTopicLength_entry [OF variant] requiredLength_def
          table_length_entry [OF variant])
  have ulen: "unat (getTopicLength thingNameLength (defenderApi ! i)) = requiredLength"
    by (simp only: unat_getTopicLength [OF variant] req)
  note result = GetTopic_Success [OF variant valid name, of buffer outLength]
  from built [unfolded result] have
    "pBuffer' = Some (DEFENDER_API_PREFIX @ take (unat thingNameLength) thingName
        @ DEFENDER_API_BRIDGE @ defenderApiTopic ! i
        @ drop (unat (getTopicLength thingNameLength (defenderApi ! i))) buffer)"
    and "pOutLength' = Some (getTopicLength thingNameLength (defenderApi ! i))"
    by (simp_all only: prod.inject simp_thms)
  moreover have "length (DEFENDER_API_PREFIX @ take (unat thingNameLength) thingName
                     @ DEFENDER_API_BRIDGE @ defenderApiTopic ! i) = requiredLength"
    using name by (simp add: req prefix_length bridge_length)
  ultimately show ?thesis
    using ulen by (simp only: len simp_thms)
qed

theorem GetTopic_success_contents_witness:
  "(1 :: nat) < 6 \<and> unat (7 :: 16 word) \<le> length ''MyThing''
   \<and> Defender_GetTopic (Some (replicate 60 CHR ''.'')) 60 (Some ''MyThing'') 7
         (defenderApi ! 1) (Some 0)
       = (DefenderSuccess,
          Some ''$aws/things/MyThing/defender/metrics/json/accepted..........'', Some 50)
   \<and> Some (50 :: 32 word)
       = Some (word_of_nat (DEFENDER_API_PREFIX_LENGTH + unat (7 :: 16 word)
                              + DEFENDER_API_BRIDGE_LENGTH + unat (defenderApiTopicLength ! 1)))"
proof -
  have variant: "(1 :: nat) < 6"
    by simp
  have name: "unat (7 :: 16 word) \<le> length ''MyThing''"
    by simp
  have built:
    "Defender_GetTopic (Some (replicate 60 CHR ''.'')) 60 (Some ''MyThing'') 7
       (defenderApi ! 1) (Some 0)
     = (DefenderSuccess,
        Some ''$aws/things/MyThing/defender/metrics/json/accepted..........'', Some 50)"
    by code_simp
  from GetTopic_success_contents [OF variant name built]
  have "Some (50 :: 32 word)
          = Some (word_of_nat (DEFENDER_API_PREFIX_LENGTH + unat (7 :: 16 word)
                                 + DEFENDER_API_BRIDGE_LENGTH + unat (defenderApiTopicLength ! 1)))"
    by (rule conjunct1)
  with variant name built show ?thesis
    by (intro conjI)
qed

text \<open>
  C5.  For a thing name of 1 to 128 bytes and a valid variant, the required topic length is
  12 bytes of prefix, the bytes of the thing name, 18 bytes of bridge and the bytes of the
  format and suffix.  A call with \<open>bufferLength\<close> equal to that number returns
  \<open>DefenderSuccess\<close>, fills the first \<open>bufferLength\<close> bytes of the buffer with the topic and
  stores \<open>bufferLength\<close> in \<open>*pOutLength\<close>; a call with \<open>bufferLength\<close> one less returns
  \<open>DefenderBufferTooSmall\<close> and leaves the whole buffer, and \<open>*pOutLength\<close>, as they were.
\<close>

theorem GetTopic_exact_length:
  assumes variant: "i < 6" and len: "thingNameLength \<noteq> 0" "thingNameLength \<le> 128"
    and name: "unat thingNameLength \<le> length thingName"
    and exact: "unat bufferLength
                  = 12 + unat thingNameLength + 18 + length (defenderApiTopic ! i)"
  shows "Defender_GetTopic (Some buffer) bufferLength (Some thingName) thingNameLength
           (defenderApi ! i) (Some outLength)
         = (DefenderSuccess,
            Some (DEFENDER_API_PREFIX @ take (unat thingNameLength) thingName
                    @ DEFENDER_API_BRIDGE @ defenderApiTopic ! i
                    @ drop (unat bufferLength) buffer),
            Some bufferLength)
         \<and> Defender_GetTopic (Some buffer) (bufferLength - 1) (Some thingName) thingNameLength
             (defenderApi ! i) (Some outLength)
           = (DefenderBufferTooSmall, Some buffer, Some outLength)"
proof
  have "unat (getTopicLength thingNameLength (defenderApi ! i)) = unat bufferLength"
    by (simp only: unat_getTopicLength [OF variant] exact)
  then have required: "getTopicLength thingNameLength (defenderApi ! i) = bufferLength"
    by (simp only: word_unat_eq_iff)
  have room: "getTopicLength thingNameLength (defenderApi ! i) \<le> bufferLength"
    by (simp only: required order_refl)
  from GetTopic_Success [OF variant len room name, of buffer outLength]
  show "Defender_GetTopic (Some buffer) bufferLength (Some thingName) thingNameLength
           (defenderApi ! i) (Some outLength)
         = (DefenderSuccess,
            Some (DEFENDER_API_PREFIX @ take (unat thingNameLength) thingName
                    @ DEFENDER_API_BRIDGE @ defenderApiTopic ! i
                    @ drop (unat bufferLength) buffer),
            Some bufferLength)"
    by (simp only: required)
  from exact have positive: "unat bufferLength \<noteq> 0"
    by simp
  then have "bufferLength \<noteq> 0"
    by auto
  then have "unat (bufferLength - 1) = unat bufferLength - 1"
    by (rule unat_minus_one)
  with positive have "bufferLength - 1 < bufferLength"
    by (simp add: word_less_nat_alt)
  then have "bufferLength - 1 < getTopicLength thingNameLength (defenderApi ! i)"
    by (simp only: required)
  with variant len
  show "Defender_GetTopic (Some buffer) (bufferLength - 1) (Some thingName) thingNameLength
             (defenderApi ! i) (Some outLength)
           = (DefenderBufferTooSmall, Some buffer, Some outLength)"
    by (rule GetTopic_too_small)
qed

theorem GetTopic_exact_length_witness:
  "(3 :: nat) < 6 \<and> (7 :: 16 word) \<noteq> 0 \<and> (7 :: 16 word) \<le> 128
   \<and> unat (7 :: 16 word) \<le> length ''MyThing''
   \<and> unat (41 :: 32 word) = 12 + unat (7 :: 16 word) + 18 + length (defenderApiTopic ! 3)
   \<and> Defender_GetTopic (Some (replicate 41 CHR ''.'')) 41 (Some ''MyThing'') 7
         (defenderApi ! 3) (Some 0)
       = (DefenderSuccess,
          Some (DEFENDER_API_PREFIX @ take (unat (7 :: 16 word)) ''MyThing''
                  @ DEFENDER_API_BRIDGE @ defenderApiTopic ! 3
                  @ drop (unat (41 :: 32 word)) (replicate 41 CHR ''.'')),
          Some 41)
   \<and> Defender_GetTopic (Some (replicate 41 CHR ''.'')) (41 - 1) (Some ''MyThing'') 7
         (defenderApi ! 3) (Some 0)
       = (DefenderBufferTooSmall, Some (replicate 41 CHR ''.''), Some 0)"
proof -
  have variant: "(3 :: nat) < 6"
    by simp
  have len: "(7 :: 16 word) \<noteq> 0" "(7 :: 16 word) \<le> 128"
    by simp_all
  have name: "unat (7 :: 16 word) \<le> length ''MyThing''"
    by simp
  have exact: "unat (41 :: 32 word)
                 = 12 + unat (7 :: 16 word) + 18 + length (defenderApiTopic ! 3)"
    by (simp add: defenderApiTopic_def literal_defs)
  from variant len name exact
    GetTopic_exact_length [OF variant len name exact, of "replicate 41 CHR ''.''" 0]
  show ?thesis
    by (intro conjI) (erule conjunct1 conjunct2 | assumption)+
qed

section \<open>Building a topic and matching it\<close>

text \<open>
  A topic string is passed to \<open>Defender_MatchTopic\<close> as a pointer to its bytes and its
  length in the \<open>uint16_t\<close> parameter \<open>topicLength\<close>, so it has at most 65535 bytes; the
  memory behind the pointer may go on after the topic.
\<close>

text \<open>
  C1, as amended.  For a thing name of 1 to 128 bytes none of which is a forward slash, a
  valid variant and a buffer with room for the topic, \<open>Defender_GetTopic\<close> returns
  \<open>DefenderSuccess\<close> and writes the topic length to \<open>*pOutLength\<close>; \<open>Defender_MatchTopic\<close> on
  the buffer with that length then returns \<open>DefenderSuccess\<close> with the same variant in
  \<open>*pOutApi\<close>, the thing-name pointer at offset 12 of the topic and the thing-name length
  equal to \<open>thingNameLength\<close> (each written where its slot is not \<open>NULL\<close>), and the bytes of
  the topic at that offset are the thing name.
\<close>

theorem GetTopic_MatchTopic_roundtrip:
  assumes variant: "i < 6" and len: "thingNameLength \<noteq> 0" "thingNameLength \<le> 128"
    and name: "unat thingNameLength \<le> length thingName"
    and no_slash: "CHR ''/'' \<notin> set (take (unat thingNameLength) thingName)"
    and room: "getTopicLength thingNameLength (defenderApi ! i) \<le> bufferLength"
    and built: "Defender_GetTopic (Some buffer) bufferLength (Some thingName) thingNameLength
                  (defenderApi ! i) (Some outLength) = (ret, pTopic, pLength)"
  shows "ret = DefenderSuccess
         \<and> pLength = Some (getTopicLength thingNameLength (defenderApi ! i))
         \<and> Defender_MatchTopic pTopic (ucast (getTopicLength thingNameLength (defenderApi ! i)))
               (Some outApi) ppOutThingName pOutThingNameLength
             = (DefenderSuccess, Some (defenderApi ! i),
                map_option (\<lambda>_. TopicPtr 12) ppOutThingName,
                map_option (\<lambda>_. thingNameLength) pOutThingNameLength)
         \<and> map_option (\<lambda>topic. take (unat thingNameLength) (drop 12 topic)) pTopic
             = Some (take (unat thingNameLength) thingName)"
proof -
  define name_bytes where "name_bytes = take (unat thingNameLength) thingName"
  define L where "L = getTopicLength thingNameLength (defenderApi ! i)"
  define rest where "rest = drop (unat L) buffer"
  define topic where
    "topic = DEFENDER_API_PREFIX @ name_bytes @ DEFENDER_API_BRIDGE @ defenderApiTopic ! i @ rest"
  have lid: "length name_bytes = unat thingNameLength"
    using name by (simp add: name_bytes_def)
  have "unat thingNameLength \<noteq> 0"
    using len(1) by (simp add: unat_eq_0)
  with lid have nonempty: "name_bytes \<noteq> []"
    by auto
  have uL: "unat L = 12 + length name_bytes + 18 + length (defenderApiTopic ! i)"
    by (simp only: L_def unat_getTopicLength [OF variant] lid)
  have "unat thingNameLength \<le> 128"
    using len(2) by (simp add: word_le_nat_alt)
  with table_entry_le [OF variant] have "unat L < 65536"
    by (simp add: uL lid)
  then have n: "unat (ucast L :: 16 word) = 12 + length name_bytes + 18 + length (defenderApiTopic ! i)"
    by (simp only: unat16_ucast32 uL)
  have "word_of_nat (unat thingNameLength) = thingNameLength"
    by simp
  then have of_len: "(word_of_nat (length name_bytes) :: 16 word) = thingNameLength"
    by (simp only: lid)
  from GetTopic_Success [OF variant len room name, of buffer outLength] built
  have result: "(ret, pTopic, pLength) = (DefenderSuccess, Some topic, Some L)"
    by (simp only: topic_def name_bytes_def L_def rest_def)
  then have r: "ret = DefenderSuccess" and t: "pTopic = Some topic" and l: "pLength = Some L"
    by (simp_all only: prod.inject)
  have matched: "Defender_MatchTopic (Some topic) (ucast L) (Some outApi)
                   ppOutThingName pOutThingNameLength
      = (DefenderSuccess, Some (defenderApi ! i),
         map_option (\<lambda>_. TopicPtr 12) ppOutThingName,
         map_option (\<lambda>_. thingNameLength) pOutThingNameLength)"
    using MatchTopic_accepts [OF variant nonempty no_slash [folded name_bytes_def] n,
        of rest outApi ppOutThingName pOutThingNameLength]
    by (simp only: topic_def of_len)
  have bytes: "take (unat thingNameLength) (drop 12 topic) = name_bytes"
    by (simp add: topic_def prefix_length lid [symmetric])
  show ?thesis
    unfolding r t l L_def [symmetric] name_bytes_def [symmetric]
    using matched bytes by (simp only: option.map simp_thms)
qed

theorem GetTopic_MatchTopic_roundtrip_witness:
  "(0 :: nat) < 6 \<and> (7 :: 16 word) \<noteq> 0 \<and> (7 :: 16 word) \<le> 128
   \<and> unat (7 :: 16 word) \<le> length ''MyThing''
   \<and> CHR ''/'' \<notin> set (take (unat (7 :: 16 word)) ''MyThing'')
   \<and> getTopicLength 7 (defenderApi ! 0) \<le> 41
   \<and> Defender_GetTopic (Some (replicate 41 CHR ''.'')) 41 (Some ''MyThing'') 7
         (defenderApi ! 0) (Some 0)
       = (DefenderSuccess, Some ''$aws/things/MyThing/defender/metrics/json'', Some 41)
   \<and> Defender_MatchTopic (Some ''$aws/things/MyThing/defender/metrics/json'')
         (ucast (getTopicLength 7 (defenderApi ! 0)))
         (Some DefenderInvalidTopic) (Some (OtherPtr 0)) (Some 0)
       = (DefenderSuccess, Some (defenderApi ! 0),
          Some (TopicPtr 12), Some 7)"
proof -
  have variant: "(0 :: nat) < 6"
    by simp
  have len: "(7 :: 16 word) \<noteq> 0" "(7 :: 16 word) \<le> 128"
    by simp_all
  have name: "unat (7 :: 16 word) \<le> length ''MyThing''"
    by simp
  have no_slash: "CHR ''/'' \<notin> set (take (unat (7 :: 16 word)) ''MyThing'')"
    by simp
  have room: "getTopicLength 7 (defenderApi ! 0) \<le> 41"
    by code_simp
  have built:
    "Defender_GetTopic (Some (replicate 41 CHR ''.'')) 41 (Some ''MyThing'') 7
       (defenderApi ! 0) (Some 0)
     = (DefenderSuccess, Some ''$aws/things/MyThing/defender/metrics/json'', Some 41)"
    by code_simp
  note roundtrip =
    GetTopic_MatchTopic_roundtrip [OF variant len name no_slash room built,
      where outApi = DefenderInvalidTopic and ppOutThingName = "Some (OtherPtr 0)"
        and pOutThingNameLength = "Some 0"]
  from roundtrip have
    "Defender_MatchTopic (Some ''$aws/things/MyThing/defender/metrics/json'')
         (ucast (getTopicLength 7 (defenderApi ! 0)))
         (Some DefenderInvalidTopic) (Some (OtherPtr 0)) (Some 0)
       = (DefenderSuccess, Some (defenderApi ! 0),
          Some (TopicPtr 12), Some 7)"
    by (simp only: option.map)
  with variant len name no_slash room built show ?thesis
    by (intro conjI)
qed

text \<open>
  C1 as stated, for every thing name of 1 to 128 bytes, fails: the hypothesis on the bytes
  of the thing name is needed.  \<open>Defender_GetTopic\<close> copies the
  thing name \<open>a/b\<close> as it is, and \<open>Defender_MatchTopic\<close> ends the thing name of the topic
  built at its first forward slash, finds \<open>/b/defender/metric\<close> where the bridge should be and
  returns \<open>DefenderNoMatch\<close>.
\<close>

theorem GetTopic_MatchTopic_roundtrip_counterexample:
  "Defender_GetTopic (Some (replicate 37 CHR ''.'')) 37 (Some ''a/b'') 3
     DefenderJsonReportPublish (Some 0)
     = (DefenderSuccess, Some ''$aws/things/a/b/defender/metrics/json'', Some 37)
   \<and> Defender_MatchTopic (Some ''$aws/things/a/b/defender/metrics/json'') 37
       (Some DefenderJsonReportPublish) (Some (OtherPtr 0)) (Some 0)
     = (DefenderNoMatch, Some DefenderInvalidTopic, Some (OtherPtr 0), Some 0)"
proof
  show "Defender_GetTopic (Some (replicate 37 CHR ''.'')) 37 (Some ''a/b'') 3
     DefenderJsonReportPublish (Some 0)
     = (DefenderSuccess, Some ''$aws/things/a/b/defender/metrics/json'', Some 37)"
    by code_simp
next
  show "Defender_MatchTopic (Some ''$aws/things/a/b/defender/metrics/json'') 37
       (Some DefenderJsonReportPublish) (Some (OtherPtr 0)) (Some 0)
     = (DefenderNoMatch, Some DefenderInvalidTopic, Some (OtherPtr 0), Some 0)"
    by code_simp
qed

text \<open>
  C3.  \<open>Defender_MatchTopic\<close> does not enforce the maximum of 128 bytes that
  \<open>Defender_GetTopic\<close> enforces: for every valid variant and every thing name of more than
  128 bytes without a forward slash, the topic made of prefix, thing name, bridge and the
  format and suffix of the variant, passed with its length, is matched with
  \<open>DefenderSuccess\<close>; the outputs are the variant, offset 12 and the length of the thing
  name.
\<close>

theorem MatchTopic_long_thing_name:
  assumes variant: "i < 6"
    and long: "128 < length name" and no_slash: "CHR ''/'' \<notin> set name"
    and whole: "unat topicLength
                  = length (DEFENDER_API_PREFIX @ name @ DEFENDER_API_BRIDGE @ defenderApiTopic ! i)"
  shows "Defender_MatchTopic
           (Some (DEFENDER_API_PREFIX @ name @ DEFENDER_API_BRIDGE @ defenderApiTopic ! i))
           topicLength (Some outApi) ppOutThingName pOutThingNameLength
         = (DefenderSuccess, Some (defenderApi ! i),
            map_option (\<lambda>_. TopicPtr 12) ppOutThingName,
            map_option (\<lambda>_. word_of_nat (length name)) pOutThingNameLength)"
proof -
  from long have nonempty: "name \<noteq> []"
    by auto
  from whole have n: "unat topicLength = 12 + length name + 18 + length (defenderApiTopic ! i)"
    by (simp add: prefix_length bridge_length)
  from MatchTopic_accepts [OF variant nonempty no_slash n,
      of "[]" outApi ppOutThingName pOutThingNameLength]
  show ?thesis
    by (simp only: append_Nil2)
qed

theorem MatchTopic_long_thing_name_witness:
  "(0 :: nat) < 6 \<and> 128 < length (replicate 129 CHR ''a'')
   \<and> CHR ''/'' \<notin> set (replicate 129 CHR ''a'')
   \<and> unat (163 :: 16 word)
       = length (DEFENDER_API_PREFIX @ replicate 129 CHR ''a'' @ DEFENDER_API_BRIDGE
                   @ defenderApiTopic ! 0)
   \<and> Defender_MatchTopic
         (Some (DEFENDER_API_PREFIX @ replicate 129 CHR ''a'' @ DEFENDER_API_BRIDGE
                  @ defenderApiTopic ! 0))
         163 (Some DefenderInvalidTopic) (Some (OtherPtr 0)) (Some 0)
       = (DefenderSuccess, Some (defenderApi ! 0),
          Some (TopicPtr 12), Some (word_of_nat (length (replicate 129 CHR ''a''))))"
proof -
  have variant: "(0 :: nat) < 6"
    by simp
  have long: "128 < length (replicate 129 CHR ''a'')"
    by simp
  have no_slash: "CHR ''/'' \<notin> set (replicate 129 CHR ''a'')"
    by simp
  have whole: "unat (163 :: 16 word)
       = length (DEFENDER_API_PREFIX @ replicate 129 CHR ''a'' @ DEFENDER_API_BRIDGE
                   @ defenderApiTopic ! 0)"
    by (simp add: defenderApiTopic_def literal_defs)
  from MatchTopic_long_thing_name [OF variant long no_slash whole,
      where outApi = DefenderInvalidTopic and ppOutThingName = "Some (OtherPtr 0)"
        and pOutThingNameLength = "Some 0"]
  have "Defender_MatchTopic
         (Some (DEFENDER_API_PREFIX @ replicate 129 CHR ''a'' @ DEFENDER_API_BRIDGE
                  @ defenderApiTopic ! 0))
         163 (Some DefenderInvalidTopic) (Some (OtherPtr 0)) (Some 0)
       = (DefenderSuccess, Some (defenderApi ! 0),
          Some (TopicPtr 12), Some (word_of_nat (length (replicate 129 CHR ''a''))))"
    by (simp only: option.map)
  with variant long no_slash whole show ?thesis
    by (intro conjI)
qed

text \<open>
  C4, as amended.  \<open>Defender_GetTopic\<close> with the thing name \<open>MyThing\<close> and the variant
  \<open>DefenderJsonReportPublish\<close> writes exactly the string
  \<open>$aws/things/MyThing/defender/metrics/json\<close> and the length 41, which is the length of
  that string, into any buffer of at least 41 bytes; \<open>Defender_MatchTopic\<close> on that string
  returns \<open>DefenderSuccess\<close> with \<open>DefenderJsonReportPublish\<close>, the thing name at offset 12 and
  the thing-name length 7.
\<close>

theorem MyThing_example:
  assumes room: "41 \<le> bufferLength"
  shows "Defender_GetTopic (Some buffer) bufferLength (Some ''MyThing'') 7
           DefenderJsonReportPublish (Some outLength)
         = (DefenderSuccess,
            Some (''$aws/things/MyThing/defender/metrics/json'' @ drop 41 buffer), Some 41)
         \<and> length ''$aws/things/MyThing/defender/metrics/json'' = 41
         \<and> Defender_MatchTopic (Some ''$aws/things/MyThing/defender/metrics/json'') 41
             (Some outApi) (Some thingNamePtr) (Some thingNameLength)
           = (DefenderSuccess, Some DefenderJsonReportPublish, Some (TopicPtr 12), Some 7)"
proof (intro conjI)
  have variant: "(0 :: nat) < 6"
    by simp
  have len: "(7 :: 16 word) \<noteq> 0" "(7 :: 16 word) \<le> 128"
    by simp_all
  have name: "unat (7 :: 16 word) \<le> length ''MyThing''"
    by simp
  have api: "defenderApi ! 0 = DefenderJsonReportPublish"
    by (simp add: defenderApi_def)
  have required: "getTopicLength 7 DefenderJsonReportPublish = 41"
    by code_simp
  have string: "DEFENDER_API_PREFIX @ take (unat (7 :: 16 word)) ''MyThing''
                  @ DEFENDER_API_BRIDGE @ defenderApiTopic ! 0 @ drop 41 buffer
                = ''$aws/things/MyThing/defender/metrics/json'' @ drop 41 buffer"
    by (simp add: defenderApiTopic_def literal_defs)
  have u41: "unat (41 :: 32 word) = 41"
    by simp
  from room have room': "getTopicLength 7 (defenderApi ! 0) \<le> bufferLength"
    by (simp only: api required)
  from GetTopic_Success [OF variant len room' name, of buffer outLength]
  show "Defender_GetTopic (Some buffer) bufferLength (Some ''MyThing'') 7
           DefenderJsonReportPublish (Some outLength)
         = (DefenderSuccess,
            Some (''$aws/things/MyThing/defender/metrics/json'' @ drop 41 buffer), Some 41)"
    by (simp only: api required u41 string)
next
  show "length ''$aws/things/MyThing/defender/metrics/json'' = 41"
    by simp
next
  have variant: "(0 :: nat) < 6"
    by simp
  have nonempty: "''MyThing'' \<noteq> []" and no_slash: "CHR ''/'' \<notin> set ''MyThing''"
    by simp_all
  have n: "unat (41 :: 16 word) = 12 + length ''MyThing'' + 18 + length (defenderApiTopic ! 0)"
    by (simp add: defenderApiTopic_def literal_defs)
  have api: "defenderApi ! 0 = DefenderJsonReportPublish"
    by (simp add: defenderApi_def)
  have string: "DEFENDER_API_PREFIX @ ''MyThing'' @ DEFENDER_API_BRIDGE @ defenderApiTopic ! 0 @ []
                = ''$aws/things/MyThing/defender/metrics/json''"
    by (simp add: defenderApiTopic_def literal_defs)
  have seven: "(word_of_nat (length ''MyThing'') :: 16 word) = 7"
    by simp
  from MatchTopic_accepts [OF variant nonempty no_slash n,
      of "[]" outApi "Some thingNamePtr" "Some thingNameLength"]
  show "Defender_MatchTopic (Some ''$aws/things/MyThing/defender/metrics/json'') 41
             (Some outApi) (Some thingNamePtr) (Some thingNameLength)
           = (DefenderSuccess, Some DefenderJsonReportPublish, Some (TopicPtr 12), Some 7)"
    by (simp only: api string seven option.map)
qed

theorem MyThing_example_witness:
  "(41 :: 32 word) \<le> 41
   \<and> Defender_GetTopic (Some (replicate 41 CHR ''.'')) 41 (Some ''MyThing'') 7
         DefenderJsonReportPublish (Some 0)
       = (DefenderSuccess,
          Some (''$aws/things/MyThing/defender/metrics/json'' @ drop 41 (replicate 41 CHR ''.'')),
          Some 41)"
proof -
  have room: "(41 :: 32 word) \<le> 41"
    by simp
  from room MyThing_example [OF room, of "replicate 41 CHR ''.''" 0, THEN conjunct1]
  show ?thesis
    by (rule conjI)
qed

text \<open>
  C4 as stated fails in the length alone.  The written length is 41 and not 42: a call
  with a buffer of 42 bytes writes 41 of them,
  leaves the last one as it was and stores 41 in \<open>*pOutLength\<close>.
\<close>

theorem MyThing_example_counterexample:
  "Defender_GetTopic (Some (replicate 42 CHR ''.'')) 42 (Some ''MyThing'') 7
     DefenderJsonReportPublish (Some 0)
     = (DefenderSuccess, Some ''$aws/things/MyThing/defender/metrics/json.'', Some 41)
   \<and> snd (snd (Defender_GetTopic (Some (replicate 42 CHR ''.'')) 42 (Some ''MyThing'') 7
                  DefenderJsonReportPublish (Some 0))) \<noteq> Some 42"
proof -
  have built:
    "Defender_GetTopic (Some (replicate 42 CHR ''.'')) 42 (Some ''MyThing'') 7
       DefenderJsonReportPublish (Some 0)
     = (DefenderSuccess, Some ''$aws/things/MyThing/defender/metrics/json.'', Some 41)"
    by code_simp
  moreover have "Some (41 :: 32 word) \<noteq> Some 42"
    by simp
  ultimately show ?thesis
    by (simp only: snd_conv simp_thms)
qed

section \<open>The stages of Defender_MatchTopic\<close>

text \<open>
  C6.  \<open>matchApi\<close>, given the memory after the bridge and the number \<open>n\<close> of remaining
  bytes, returns \<open>DefenderSuccess\<close> exactly when these \<open>n\<close> bytes are one of the six strings
  \<open>json\<close>, \<open>json/accepted\<close>, \<open>json/rejected\<close>, \<open>cbor\<close>, \<open>cbor/accepted\<close>, \<open>cbor/rejected\<close>, in
  length and content.  In particular for every thing name \<open>T\<close> the topic
  \<open>$aws/things/T/defender/metrics/json2\<close>, passed with its length, yields
  \<open>DefenderNoMatch\<close>.
\<close>

theorem matchApi_exact_match:
  assumes mem: "unat n \<le> length p"
    and whole: "unat topicLength
                  = length (DEFENDER_API_PREFIX @ T @ DEFENDER_API_BRIDGE @ ''json2'')"
  shows "(fst (matchApi p n outApi) = DefenderSuccess
            \<longleftrightarrow> take (unat n) p \<in> {''json'', ''json/accepted'', ''json/rejected'',
                                    ''cbor'', ''cbor/accepted'', ''cbor/rejected''})
         \<and> Defender_MatchTopic (Some (DEFENDER_API_PREFIX @ T @ DEFENDER_API_BRIDGE @ ''json2''))
               topicLength (Some outApi) ppOutThingName pOutThingNameLength
             = (DefenderNoMatch, Some DefenderInvalidTopic, ppOutThingName, pOutThingNameLength)"
proof
  from matchApi_iff [OF mem, of outApi]
  show "fst (matchApi p n outApi) = DefenderSuccess
            \<longleftrightarrow> take (unat n) p \<in> {''json'', ''json/accepted'', ''json/rejected'',
                                    ''cbor'', ''cbor/accepted'', ''cbor/rejected''}"
    by (simp only: table_set)
next
  define topic where "topic = DEFENDER_API_PREFIX @ T @ DEFENDER_API_BRIDGE @ ''json2''"
  have last_byte: "last topic = CHR ''2''"
    by (simp add: topic_def)
  have "fst (Defender_MatchTopic (Some topic) topicLength (Some outApi)
               ppOutThingName pOutThingNameLength) \<noteq> DefenderSuccess"
  proof
    assume "fst (Defender_MatchTopic (Some topic) topicLength (Some outApi)
                   ppOutThingName pOutThingNameLength) = DefenderSuccess"
    moreover have "unat topicLength \<le> length topic"
      using whole by (simp add: topic_def)
    ultimately obtain s pre where s: "s \<in> set defenderApiTopic"
      and split: "take (unat topicLength) topic = pre @ s"
      using MatchTopic_Success_suffix by blast
    from whole have "take (unat topicLength) topic = topic"
      by (simp add: topic_def)
    with split have "topic = pre @ s"
      by simp
    moreover from s have "s \<noteq> []" and "last s \<noteq> CHR ''2''"
      unfolding table_set by auto
    ultimately have "last topic \<noteq> CHR ''2''"
      by simp
    with last_byte show False
      by (rule notE [rotated])
  qed
  then show "Defender_MatchTopic (Some (DEFENDER_API_PREFIX @ T @ DEFENDER_API_BRIDGE @ ''json2''))
               topicLength (Some outApi) ppOutThingName pOutThingNameLength
             = (DefenderNoMatch, Some DefenderInvalidTopic, ppOutThingName, pOutThingNameLength)"
    unfolding topic_def by (rule MatchTopic_not_Success)
qed

theorem matchApi_exact_match_witness:
  "unat (5 :: 16 word) \<le> length ''json2''
   \<and> unat (36 :: 16 word) = length (DEFENDER_API_PREFIX @ ''T'' @ DEFENDER_API_BRIDGE @ ''json2'')
   \<and> (fst (matchApi ''json2'' 5 DefenderJsonReportPublish) = DefenderSuccess
          \<longleftrightarrow> take (unat (5 :: 16 word)) ''json2''
                \<in> {''json'', ''json/accepted'', ''json/rejected'',
                    ''cbor'', ''cbor/accepted'', ''cbor/rejected''})
   \<and> Defender_MatchTopic (Some (DEFENDER_API_PREFIX @ ''T'' @ DEFENDER_API_BRIDGE @ ''json2''))
         36 (Some DefenderJsonReportPublish) (Some (OtherPtr 0)) (Some 0)
       = (DefenderNoMatch, Some DefenderInvalidTopic, Some (OtherPtr 0), Some 0)"
proof -
  have mem: "unat (5 :: 16 word) \<le> length ''json2''"
    by simp
  have whole: "unat (36 :: 16 word)
                 = length (DEFENDER_API_PREFIX @ ''T'' @ DEFENDER_API_BRIDGE @ ''json2'')"
    by (simp add: literal_defs)
  note exact = matchApi_exact_match [OF mem whole,
      where outApi = DefenderJsonReportPublish and ppOutThingName = "Some (OtherPtr 0)"
        and pOutThingNameLength = "Some 0"]
  from mem whole exact [THEN conjunct1] exact [THEN conjunct2] show ?thesis
    by (intro conjI)
qed

text \<open>
  C8, as amended.  With \<open>n\<close> remaining bytes after the prefix: if none of them is a forward
  slash and there is at least one, \<open>extractThingNameLength\<close> returns \<open>DefenderSuccess\<close> and
  takes all \<open>n\<close> bytes as the thing name; if there is none, or the first one is a forward
  slash, it returns \<open>DefenderNoMatch\<close> and leaves \<open>*pOutThingNameLength\<close> as it was.  A topic
  that is the prefix followed by bytes without a forward slash is still rejected by
  \<open>Defender_MatchTopic\<close>, with \<open>DefenderNoMatch\<close>: whatever the thing-name stage returns,
  no byte is left for the bridge.
\<close>

theorem extractThingNameLength_without_slash:
  assumes mem: "unat n \<le> length p"
  shows "(n \<noteq> 0 \<and> CHR ''/'' \<notin> set (take (unat n) p)
            \<longrightarrow> extractThingNameLength p n x = (DefenderSuccess, n))
         \<and> (n = 0 \<or> p ! 0 = CHR ''/''
            \<longrightarrow> extractThingNameLength p n x = (DefenderNoMatch, x))
         \<and> (CHR ''/'' \<notin> set name \<and> unat topicLength = length (DEFENDER_API_PREFIX @ name)
            \<longrightarrow> Defender_MatchTopic (Some (DEFENDER_API_PREFIX @ name)) topicLength
                  (Some outApi) ppOutThingName pOutThingNameLength
                = (DefenderNoMatch, Some DefenderInvalidTopic,
                   ppOutThingName, pOutThingNameLength))"
proof (intro conjI impI)
  assume "n \<noteq> 0 \<and> CHR ''/'' \<notin> set (take (unat n) p)"
  then have "findSlash p n 0 = n" and "0 < n"
    using findSlash_no_slash [OF mem] by (simp_all add: word_gt_0)
  then show "extractThingNameLength p n x = (DefenderSuccess, n)"
    by (simp add: extractThingNameLength_def Let_def)
next
  assume "n = 0 \<or> p ! 0 = CHR ''/''"
  then have "findSlash p n 0 = 0"
  proof
    assume "n = 0"
    then show ?thesis
      by (subst findSlash.simps) simp
  next
    assume "p ! 0 = CHR ''/''"
    then show ?thesis
      by (subst findSlash.simps) (simp only: unsigned_0 if_True if_cancel simp_thms)
  qed
  then show "extractThingNameLength p n x = (DefenderNoMatch, x)"
    by (simp add: extractThingNameLength_def Let_def)
next
  assume topic: "CHR ''/'' \<notin> set name
                   \<and> unat topicLength = length (DEFENDER_API_PREFIX @ name)"
  define P :: "16 word" where "P = word_of_nat DEFENDER_API_PREFIX_LENGTH"
  define tn where
    "tn = findSlash (drop (unat P) (DEFENDER_API_PREFIX @ name)) (topicLength - P) 0"
  have uP: "unat P = 12"
    by (simp add: P_def prefix_word)
  from topic have rem: "unat (topicLength - P) = length name"
    using unat16_minus [of P topicLength] by (simp add: uP prefix_length)
  have tail: "drop (unat P) (DEFENDER_API_PREFIX @ name) = name"
    by (simp add: uP prefix_length)
  from topic rem have "findSlash name (topicLength - P) 0 = topicLength - P"
    by (intro findSlash_no_slash) simp_all
  then have "tn = topicLength - P"
    by (simp only: tn_def tail)
  then have "unat (topicLength - P - tn) = 0"
    by (simp only: diff_self unsigned_0)
  then have "matchBridge (drop (unat (P + tn)) (DEFENDER_API_PREFIX @ name))
               (topicLength - P - tn) \<noteq> DefenderSuccess"
    by (simp only: matchBridge_iff) simp
  with MatchTopic_cases [of "DEFENDER_API_PREFIX @ name" topicLength outApi
      ppOutThingName pOutThingNameLength]
  show "Defender_MatchTopic (Some (DEFENDER_API_PREFIX @ name)) topicLength
          (Some outApi) ppOutThingName pOutThingNameLength
        = (DefenderNoMatch, Some DefenderInvalidTopic, ppOutThingName, pOutThingNameLength)"
    unfolding P_def tn_def by blast
qed

theorem extractThingNameLength_without_slash_witness:
  "unat (7 :: 16 word) \<le> length ''MyThing''
   \<and> (7 :: 16 word) \<noteq> 0 \<and> CHR ''/'' \<notin> set (take (unat (7 :: 16 word)) ''MyThing'')
   \<and> extractThingNameLength ''MyThing'' 7 0 = (DefenderSuccess, 7)
   \<and> CHR ''/'' \<notin> set ''MyThing''
   \<and> unat (19 :: 16 word) = length (DEFENDER_API_PREFIX @ ''MyThing'')
   \<and> Defender_MatchTopic (Some (DEFENDER_API_PREFIX @ ''MyThing'')) 19
         (Some DefenderJsonReportPublish) (Some (OtherPtr 0)) (Some 0)
       = (DefenderNoMatch, Some DefenderInvalidTopic, Some (OtherPtr 0), Some 0)
   \<and> unat (9 :: 16 word) \<le> length ''/defender''
   \<and> ((9 :: 16 word) = 0 \<or> ''/defender'' ! 0 = CHR ''/'')
   \<and> extractThingNameLength ''/defender'' 9 5 = (DefenderNoMatch, 5)"
proof -
  have mem: "unat (7 :: 16 word) \<le> length ''MyThing''"
    by simp
  have none: "(7 :: 16 word) \<noteq> 0 \<and> CHR ''/'' \<notin> set (take (unat (7 :: 16 word)) ''MyThing'')"
    by simp
  have topic: "CHR ''/'' \<notin> set ''MyThing''
                 \<and> unat (19 :: 16 word) = length (DEFENDER_API_PREFIX @ ''MyThing'')"
    by (simp add: literal_defs)
  have mem': "unat (9 :: 16 word) \<le> length ''/defender''"
    by simp
  have first: "(9 :: 16 word) = 0 \<or> ''/defender'' ! 0 = CHR ''/''"
    by simp
  note no_slash = extractThingNameLength_without_slash [OF mem,
      where x = 0 and name = "''MyThing''" and topicLength = 19
        and outApi = DefenderJsonReportPublish and ppOutThingName = "Some (OtherPtr 0)"
        and pOutThingNameLength = "Some 0"]
  note slash = extractThingNameLength_without_slash [OF mem', where x = 5]
  from no_slash none have a: "extractThingNameLength ''MyThing'' 7 0 = (DefenderSuccess, 7)"
    by blast
  from no_slash topic have b:
    "Defender_MatchTopic (Some (DEFENDER_API_PREFIX @ ''MyThing'')) 19
         (Some DefenderJsonReportPublish) (Some (OtherPtr 0)) (Some 0)
       = (DefenderNoMatch, Some DefenderInvalidTopic, Some (OtherPtr 0), Some 0)"
    by blast
  from slash first have c: "extractThingNameLength ''/defender'' 9 5 = (DefenderNoMatch, 5)"
    by blast
  from mem none a topic b mem' first c show ?thesis
    by (intro conjI) (erule conjunct1 conjunct2 | assumption)+
qed

text \<open>
  C8 as stated fails in its first half.  The thing-name stage itself does not fail when
  no forward slash follows: on the seven
  remaining bytes \<open>MyThing\<close> it returns \<open>DefenderSuccess\<close> with the length 7, as the comment
  on the function in the source says of the topic \<open>$aws/things/<ThingName>\<close>.
\<close>

theorem extractThingNameLength_without_slash_counterexample:
  "CHR ''/'' \<notin> set ''MyThing''
   \<and> extractThingNameLength ''MyThing'' 7 0 = (DefenderSuccess, 7)
   \<and> fst (extractThingNameLength ''MyThing'' 7 0) \<noteq> DefenderNoMatch"
proof -
  have "extractThingNameLength ''MyThing'' 7 0 = (DefenderSuccess, 7)"
    by code_simp
  then show ?thesis
    by simp
qed

end
